theory Spec2Isabelle
  imports Main "HOL-Library.Word"
begin

unbundle bit_operations_syntax

section \<open>Kernel memory\<close>

text \<open>
  The allocator of \<^verbatim>\<open>threads/malloc.c\<close> keeps its bookkeeping inside the pages it hands
  out, so the model carries a byte-addressed memory.  Addresses and \<^verbatim>\<open>size_t\<close> values are
  natural numbers; the target is the 32-bit x86 of Pintos, so every place where unsigned
  arithmetic of the source can leave the range \<open>0 .. 2^32 - 1\<close> is wrapped explicitly with
  \<open>wrap32\<close>.  Pointer arithmetic is left unwrapped: an address beyond \<open>2^32\<close> stands for
  an overflow that C leaves undefined.  The fields \<^verbatim>\<open>magic\<close>, \<^verbatim>\<open>num_pages\<close> and \<^verbatim>\<open>size\<close>
  are four bytes wide and are read and written in little-endian order.  The model is
  sequential: the locks of the descriptors are left out.
\<close>

type_synonym byte = "8 word"
type_synonym memory = "nat \<Rightarrow> byte"

definition wrap32 :: "nat \<Rightarrow> nat" where
  "wrap32 x = x mod 4294967296"

definition load32 :: "memory \<Rightarrow> nat \<Rightarrow> nat" where
  "load32 m a =
     unat (m a) + 256 * unat (m (a + 1)) + 65536 * unat (m (a + 2))
       + 16777216 * unat (m (a + 3))"

definition store32 :: "memory \<Rightarrow> nat \<Rightarrow> nat \<Rightarrow> memory" where
  "store32 m a v =
     m(a := of_nat v, a + 1 := of_nat (v div 256), a + 2 := of_nat (v div 65536),
       a + 3 := of_nat (v div 16777216))"

text \<open>\<^verbatim>\<open>memset (p, c, n)\<close> and \<^verbatim>\<open>memcpy (dst, src, n)\<close> (regions that do not overlap).\<close>

definition memset :: "memory \<Rightarrow> nat \<Rightarrow> byte \<Rightarrow> nat \<Rightarrow> memory" where
  "memset m p c n = (\<lambda>x. if p \<le> x \<and> x < p + n then c else m x)"

definition memcpy :: "memory \<Rightarrow> nat \<Rightarrow> nat \<Rightarrow> nat \<Rightarrow> memory" where
  "memcpy m dst src n = (\<lambda>x. if dst \<le> x \<and> x < dst + n then m (src + (x - dst)) else m x)"

text \<open>
  Modelled from the spec: \<^verbatim>\<open>PGSIZE\<close>, \<^verbatim>\<open>pg_ofs\<close> and \<^verbatim>\<open>pg_round_down\<close> come from
  \<^verbatim>\<open>threads/vaddr.h\<close>, which is not among the sources.  The spec fixes the page size at
  4096 and describes \<^verbatim>\<open>pg_round_down\<close> as rounding an address down to a page boundary;
  \<^verbatim>\<open>pg_ofs\<close> is the offset inside the page.
\<close>

definition PGSIZE :: nat where
  "PGSIZE = 4096"

definition pg_ofs :: "nat \<Rightarrow> nat" where
  "pg_ofs va = va mod PGSIZE"

definition pg_round_down :: "nat \<Rightarrow> nat" where
  "pg_round_down va = va - va mod PGSIZE"

definition ARENA_MAGIC :: nat where
  "ARENA_MAGIC = 0x9a548eed"

text \<open>
  The size of \<^verbatim>\<open>struct arena\<close> and the offsets of \<^verbatim>\<open>num_pages\<close> in it and of \<^verbatim>\<open>size\<close> in
  \<^verbatim>\<open>struct block\<close> depend on \<^verbatim>\<open>struct list_elem\<close> (\<^verbatim>\<open>lib/kernel/list.h\<close>, not among the
  sources), so they are a parameter of every operation.  \<^verbatim>\<open>magic\<close> is the first member of
  \<^verbatim>\<open>struct arena\<close> and sits at offset 0.  \<open>i386_layout\<close> is what the 32-bit target gives
  with a \<^verbatim>\<open>list_elem\<close> of two pointers; \<open>spec_layout\<close> has the 32-byte header the spec's
  scenarios assume, with \<^verbatim>\<open>num_pages\<close> in its last word (the spec does not place the
  fields).
\<close>

record layout =
  sizeof_arena :: nat
  ofs_num_pages :: nat
  ofs_size :: nat

definition i386_layout :: layout where
  "i386_layout = \<lparr>sizeof_arena = 24, ofs_num_pages = 20, ofs_size = 12\<rparr>"

definition spec_layout :: layout where
  "spec_layout = \<lparr>sizeof_arena = 32, ofs_num_pages = 28, ofs_size = 12\<rparr>"

text \<open>
  A layout is usable when \<^verbatim>\<open>num_pages\<close> lies inside the header behind \<^verbatim>\<open>magic\<close> and the
  header leaves room for the two top-class blocks in a page.
\<close>

definition layout_ok :: "layout \<Rightarrow> bool" where
  "layout_ok L =
     (4 \<le> ofs_num_pages L \<and> ofs_num_pages L + 4 \<le> sizeof_arena L \<and>
      sizeof_arena L + 2048 \<le> PGSIZE)"

section \<open>The allocator's state\<close>

text \<open>
  \<^verbatim>\<open>struct desc\<close> without its lock (the model is sequential).  The intrusive lists
  \<^verbatim>\<open>free_list\<close> and \<^verbatim>\<open>arena_list\<close> are lists of the addresses of the blocks and arenas
  linked into them; the bytes of the link fields themselves are not tracked in the memory.
\<close>

record desc =
  block_size :: nat
  blocks_per_arena :: nat
  free_list :: "nat list"

text \<open>
  The page allocator (\<^verbatim>\<open>threads/palloc.c\<close>) is external.  Each operation receives as
  argument \<open>pg\<close> the answer \<^verbatim>\<open>palloc_get_multiple\<close> gives if the operation calls it (0 is
  the null pointer), and every call made is appended to \<open>pcalls\<close>.
\<close>

datatype pcall = Palloc_get nat nat | Palloc_free nat nat

record heap =
  descs :: "desc list"
  desc_cnt :: nat
  arena_list :: "nat list"
  mem :: memory
  pcalls :: "pcall list"

text \<open>
  A failed \<^verbatim>\<open>ASSERT\<close>, an access outside \<^verbatim>\<open>descs\<close>, a division by zero, or the
  dereference of a null or dangling pointer.
\<close>

datatype panic = Assertion | OutOfBounds | DivideError | BadPointer

definition bindR :: "panic + 'a \<Rightarrow> ('a \<Rightarrow> panic + 'b) \<Rightarrow> panic + 'b" where
  "bindR r f = (case r of Inl e \<Rightarrow> Inl e | Inr x \<Rightarrow> f x)"

text \<open>
  Modelled from the spec: the list primitives (\<^verbatim>\<open>lib/kernel/list.c\<close>) are not among the
  sources; the spec names them as the intrusive doubly-linked lists the allocator is built
  on.  \<^verbatim>\<open>list_push_back\<close> appends to the free list of descriptor \<open>i\<close>;
  \<open>set_free_list\<close> replaces that list, for \<^verbatim>\<open>list_pop_front\<close> and \<^verbatim>\<open>list_remove\<close>.
\<close>

definition list_push_back :: "desc list \<Rightarrow> nat \<Rightarrow> nat \<Rightarrow> desc list" where
  "list_push_back ds i b = ds[i := (ds ! i)\<lparr>free_list := free_list (ds ! i) @ [b]\<rparr>]"

definition set_free_list :: "desc list \<Rightarrow> nat \<Rightarrow> nat list \<Rightarrow> desc list" where
  "set_free_list ds i xs = ds[i := (ds ! i)\<lparr>free_list := xs\<rparr>]"

text \<open>
  The static data before \<^verbatim>\<open>malloc_init\<close>: \<^verbatim>\<open>descs[10]\<close> and \<^verbatim>\<open>desc_cnt\<close> are zero-initialised.
\<close>

definition boot_heap :: "memory \<Rightarrow> heap" where
  "boot_heap m =
     \<lparr>descs = replicate 10 \<lparr>block_size = 0, blocks_per_arena = 0, free_list = []\<rparr>,
      desc_cnt = 0, arena_list = [], mem = m, pcalls = []\<rparr>"

section \<open>malloc\_init\<close>

text \<open>
  The loop of \<^verbatim>\<open>malloc_init\<close>: \<^verbatim>\<open>d = &descs[desc_cnt++]\<close>, the \<^verbatim>\<open>ASSERT\<close> on the new
  \<^verbatim>\<open>desc_cnt\<close>, then \<^verbatim>\<open>block_size\<close> and the empty free list.  Nothing else of the
  descriptor is assigned.
\<close>

function init_descs :: "desc list \<Rightarrow> nat \<Rightarrow> nat \<Rightarrow> panic + (desc list \<times> nat)" where
  "init_descs ds cnt bs =
     (if bs < PGSIZE div 2 then
        (if cnt + 1 \<le> length ds
         then init_descs (ds[cnt := (ds ! cnt)\<lparr>block_size := bs, free_list := []\<rparr>])
                (cnt + 1) (wrap32 (bs * 2))
         else Inl Assertion)
      else Inr (ds, cnt))"
  by pat_completeness auto
termination
  by (relation "measure (\<lambda>(ds, cnt, bs). length ds - cnt)") auto

definition malloc_init :: "heap \<Rightarrow> panic + heap" where
  "malloc_init h =
     bindR (init_descs (descs h) (desc_cnt h) 16)
       (\<lambda>(ds, cnt). Inr (h\<lparr>arena_list := [], descs := ds, desc_cnt := cnt\<rparr>))"

section \<open>Blocks and arenas\<close>

definition block_to_arena :: "layout \<Rightarrow> memory \<Rightarrow> nat \<Rightarrow> nat \<Rightarrow> panic + nat" where
  "block_to_arena L m b sz =
     (let a = pg_round_down b in
      if a = 0 then Inl Assertion
      else if load32 m a \<noteq> ARENA_MAGIC then Inl Assertion
      else if sz = 0 then Inl DivideError
      else if wrap32 (pg_ofs b + 4294967296 - sizeof_arena L) mod sz \<noteq> 0 then Inl Assertion
      else Inr a)"

definition arena_to_block :: "layout \<Rightarrow> memory \<Rightarrow> nat \<Rightarrow> nat \<Rightarrow> nat \<Rightarrow> panic + nat" where
  "arena_to_block L m a idx bs =
     (if a = 0 then Inl Assertion
      else if load32 m a \<noteq> ARENA_MAGIC then Inl Assertion
      else Inr (a + sizeof_arena L + wrap32 (idx * bs)))"

section \<open>malloc\<close>

text \<open>
  The \<^verbatim>\<open>for\<close> loop over the descriptors: the index of the first descriptor whose
  \<^verbatim>\<open>block_size\<close> is at least the request, \<^verbatim>\<open>desc_cnt\<close> when there is none.
\<close>

function find_desc :: "desc list \<Rightarrow> nat \<Rightarrow> nat \<Rightarrow> nat \<Rightarrow> panic + nat" where
  "find_desc ds cnt sz i =
     (if i < cnt then
        (if i < length ds then
           (if sz \<le> block_size (ds ! i) then Inr i else find_desc ds cnt sz (i + 1))
         else Inl OutOfBounds)
      else Inr i)"
  by pat_completeness auto
termination
  by (relation "measure (\<lambda>(ds, cnt, sz, i). cnt - i)") auto

text \<open>
  The inner \<^verbatim>\<open>while\<close>: \<^verbatim>\<open>block_count\<close> advances over empty free lists and stops at
  \<^verbatim>\<open>desc_cnt\<close>.  The source tests \<^verbatim>\<open>list_empty\<close> before the bound, so it reads
  \<^verbatim>\<open>descs[desc_cnt]\<close>, an entry of the array that \<^verbatim>\<open>malloc_init\<close> has not set up; whatever
  \<^verbatim>\<open>list_empty\<close> says of it, the bound ends the loop there.
\<close>

function skip_empty :: "desc list \<Rightarrow> nat \<Rightarrow> nat \<Rightarrow> panic + nat" where
  "skip_empty ds cnt bc =
     (if bc < length ds then
        (if free_list (ds ! bc) = [] \<and> bc < cnt then skip_empty ds cnt (bc + 1) else Inr bc)
      else Inl OutOfBounds)"
  by pat_completeness auto
termination
  by (relation "measure (\<lambda>(ds, cnt, bc). length ds - bc)") auto

text \<open>
  The oversized path: whole pages, the header at their start, the pointer behind it.
  \<^verbatim>\<open>DIV_ROUND_UP (X, STEP)\<close> of \<^verbatim>\<open>round.h\<close> is \<^verbatim>\<open>((X) + (STEP) - 1) / (STEP)\<close>, in
  \<^verbatim>\<open>size_t\<close> arithmetic.
\<close>

definition malloc_big :: "layout \<Rightarrow> heap \<Rightarrow> nat \<Rightarrow> nat \<Rightarrow> panic + (heap \<times> nat)" where
  "malloc_big L h pg sz =
     (let page_cnt = wrap32 (wrap32 (sz + sizeof_arena L) + PGSIZE - 1) div PGSIZE;
          h1 = h\<lparr>pcalls := pcalls h @ [Palloc_get page_cnt pg]\<rparr>
      in if pg = 0 then Inr (h1, 0)
         else Inr (h1\<lparr>mem := store32 (store32 (mem h) pg ARENA_MAGIC)
                              (pg + ofs_num_pages L) page_cnt\<rparr>,
                   pg + sizeof_arena L))"

text \<open>
  The loop that carves a new page: while the class \<^verbatim>\<open>descs[desc_cnt - j]\<close> is larger than
  the target, block 1 of that class goes onto its free list.  The \<^verbatim>\<open>break\<close> at the end of
  the body repeats the loop's own test.
\<close>

function fresh_split ::
  "layout \<Rightarrow> desc list \<Rightarrow> memory \<Rightarrow> nat \<Rightarrow> nat \<Rightarrow> nat \<Rightarrow> nat \<Rightarrow> panic + (desc list \<times> memory \<times> nat)"
where
  "fresh_split L ds m cnt a tbs j =
     (if cnt < j \<or> length ds \<le> cnt - j then Inl OutOfBounds
      else if tbs < block_size (ds ! (cnt - j)) then
        (case arena_to_block L m a 1 (block_size (ds ! (cnt - j))) of
           Inl e \<Rightarrow> Inl e
         | Inr tmp_block \<Rightarrow>
             fresh_split L (list_push_back ds (cnt - j) tmp_block)
               (store32 m (tmp_block + ofs_size L) (block_size (ds ! (cnt - j))))
               cnt a tbs (j + 1))
      else Inr (ds, m, j))"
  by pat_completeness auto
termination
  by (relation "measure (\<lambda>(L, ds, m, cnt, a, tbs, j). cnt + 1 - j)") auto

definition malloc_fresh :: "layout \<Rightarrow> heap \<Rightarrow> nat \<Rightarrow> nat \<Rightarrow> panic + (heap \<times> nat)" where
  "malloc_fresh L h pg t =
     (let h1 = h\<lparr>pcalls := pcalls h @ [Palloc_get 1 pg]\<rparr>
      in if pg = 0 then Inr (h1, 0)
         else
           bindR (fresh_split L (descs h)
                    (store32 (store32 (mem h) pg ARENA_MAGIC) (pg + ofs_num_pages L) 0)
                    (desc_cnt h) pg (block_size (descs h ! t)) 1)
             (\<lambda>(ds, m, j).
                let bs = block_size (ds ! (desc_cnt h - j)) in
                bindR (arena_to_block L m pg 1 bs)
                  (\<lambda>b1. let m1 = store32 m (b1 + ofs_size L) bs in
                     bindR (arena_to_block L m1 pg 0 bs)
                       (\<lambda>b0. Inr (h1\<lparr>descs := list_push_back ds t b1,
                                      mem := store32 m1 (b0 + ofs_size L) bs,
                                      arena_list := arena_list h @ [pg]\<rparr>, b0)))))"

text \<open>
  \<^verbatim>\<open>while (!((descs + desc_cnt - idx)->block_size <= (descs + block_count)->block_size))\<close>,
  with \<open>sbs\<close> the block size of \<^verbatim>\<open>descs[block_count]\<close>.
\<close>

function find_idx :: "desc list \<Rightarrow> nat \<Rightarrow> nat \<Rightarrow> nat \<Rightarrow> panic + nat" where
  "find_idx ds cnt sbs idx =
     (if cnt < idx \<or> length ds \<le> cnt - idx then Inl OutOfBounds
      else if block_size (ds ! (cnt - idx)) \<le> sbs then Inr idx
      else find_idx ds cnt sbs (idx + 1))"
  by pat_completeness auto
termination
  by (relation "measure (\<lambda>(ds, cnt, sbs, idx). cnt + 1 - idx)") auto

text \<open>
  Modelled from the spec: \<^verbatim>\<open>list_pop_front\<close> (\<^verbatim>\<open>lib/kernel/list.c\<close>, not among the
  sources) on the free list of descriptor \<open>i\<close>, which must not be empty.
\<close>

definition list_pop_front :: "desc list \<Rightarrow> nat \<Rightarrow> panic + (desc list \<times> nat)" where
  "list_pop_front ds i =
     (if length ds \<le> i then Inl OutOfBounds
      else case free_list (ds ! i) of
             [] \<Rightarrow> Inl Assertion
           | b # rest \<Rightarrow> Inr (set_free_list ds i rest, b))"

text \<open>
  The loop that halves a free block of a larger class: the front block of
  \<^verbatim>\<open>descs[block_count]\<close> is popped and its two halves are pushed onto the list below.
  The \<^verbatim>\<open>break\<close> at the end of the body repeats the loop's own test.
\<close>

function split_loop ::
  "layout \<Rightarrow> desc list \<Rightarrow> memory \<Rightarrow> nat \<Rightarrow> nat \<Rightarrow> nat \<Rightarrow> nat \<Rightarrow> nat \<Rightarrow> panic + (desc list \<times> memory \<times> nat)"
where
  "split_loop L ds m cnt a tbs bc idx =
     (if cnt < idx \<or> length ds \<le> cnt - idx then Inl OutOfBounds
      else if tbs < block_size (ds ! (cnt - idx)) then
        (case list_pop_front ds bc of
           Inl e \<Rightarrow> Inl e
         | Inr (ds1, b) \<Rightarrow>
             (if cnt < idx + 1 then Inl OutOfBounds
              else
                (let block_index =
                       wrap32 (pg_ofs b + 4294967296 - sizeof_arena L)
                         div block_size (ds1 ! (cnt - idx));
                     buddy_one_index = wrap32 (2 * block_index);
                     buddy_two_index = wrap32 (buddy_one_index + 1);
                     cbs = block_size (ds1 ! (cnt - (idx + 1)))
                 in case arena_to_block L m a buddy_two_index cbs of
                      Inl e \<Rightarrow> Inl e
                    | Inr buddy_two \<Rightarrow>
                        (case arena_to_block L (store32 m (buddy_two + ofs_size L) cbs)
                                a buddy_one_index cbs of
                           Inl e \<Rightarrow> Inl e
                         | Inr buddy_one \<Rightarrow>
                             if bc = 0 then Inl OutOfBounds
                             else
                               split_loop L
                                 (list_push_back (list_push_back ds1 (bc - 1) buddy_one)
                                    (bc - 1) buddy_two)
                                 (store32 (store32 m (buddy_two + ofs_size L) cbs)
                                    (buddy_one + ofs_size L) cbs)
                                 cnt a tbs (bc - 1) (idx + 1)))))
      else Inr (ds, m, bc))"
  by pat_completeness auto
termination
  by (relation "measure (\<lambda>(L, ds, m, cnt, a, tbs, bc, idx). cnt + 1 - idx)") auto

text \<open>
  The path that finds a free block at class \<^verbatim>\<open>block_count\<close>: the front block is looked at
  and its arena checked; when the class is the target the block is popped and returned,
  otherwise it is split.  The \<^verbatim>\<open>if\<close> before it that assigns 1 to \<^verbatim>\<open>idx\<close>, which is 1
  already, and the counter \<^verbatim>\<open>counter_tmp\<close> have no effect and are left out.
\<close>

definition malloc_split :: "layout \<Rightarrow> heap \<Rightarrow> nat \<Rightarrow> nat \<Rightarrow> panic + (heap \<times> nat)" where
  "malloc_split L h t bc =
     (case free_list (descs h ! bc) of
        [] \<Rightarrow> Inl OutOfBounds
      | block_obj # rest \<Rightarrow>
          bindR (block_to_arena L (mem h) block_obj (load32 (mem h) (block_obj + ofs_size L)))
            (\<lambda>a. bindR (find_idx (descs h) (desc_cnt h) (block_size (descs h ! bc)) 1)
               (\<lambda>idx.
                  if bc = t then
                    bindR (list_pop_front (descs h) bc) (\<lambda>(ds, b). Inr (h\<lparr>descs := ds\<rparr>, b))
                  else
                    bindR (split_loop L (descs h) (mem h) (desc_cnt h) a
                             (block_size (descs h ! t)) bc idx)
                      (\<lambda>(ds, m, bc'). bindR (list_pop_front ds bc')
                         (\<lambda>(ds', b). Inr (h\<lparr>descs := ds', mem := m\<rparr>, b))))))"

definition malloc :: "layout \<Rightarrow> heap \<Rightarrow> nat \<Rightarrow> nat \<Rightarrow> panic + (heap \<times> nat)" where
  "malloc L h pg sz =
     (if sz = 0 then Inr (h, 0)
      else
        bindR (find_desc (descs h) (desc_cnt h) sz 0)
          (\<lambda>t. if t = desc_cnt h then malloc_big L h pg sz
               else bindR (skip_empty (descs h) (desc_cnt h) t)
                      (\<lambda>bc. if bc = desc_cnt h then malloc_fresh L h pg t
                            else malloc_split L h t bc)))"

section \<open>free\<close>

text \<open>\<^verbatim>\<open>while ((descs + i)->block_size < block_obj->size) i = i + 1;\<close>\<close>

function free_find :: "desc list \<Rightarrow> nat \<Rightarrow> nat \<Rightarrow> panic + nat" where
  "free_find ds sz i =
     (if i < length ds then
        (if block_size (ds ! i) < sz then free_find ds sz (i + 1) else Inr i)
      else Inl OutOfBounds)"
  by pat_completeness auto
termination
  by (relation "measure (\<lambda>(ds, sz, i). length ds - i)") auto

text \<open>
  The coalescing loop.  The block's index is computed from its stored \<^verbatim>\<open>size\<close>, the
  buddy's address from \<^verbatim>\<open>descs[i].block_size\<close>; a buddy found on the free list of class
  \<open>i\<close> is unlinked and the stored size of the lower block is doubled, otherwise the block
  is pushed onto that list and the loop ends.
\<close>

function coalesce ::
  "layout \<Rightarrow> desc list \<Rightarrow> memory \<Rightarrow> nat \<Rightarrow> nat \<Rightarrow> nat \<Rightarrow> nat \<Rightarrow> panic + (desc list \<times> memory \<times> nat)"
where
  "coalesce L ds m cnt a b i =
     (if i < cnt then
        (let sz = load32 m (b + ofs_size L) in
         if sz = 0 then Inl DivideError
         else if length ds \<le> i then Inl OutOfBounds
         else
           (let arena_index = wrap32 (pg_ofs b + 4294967296 - sizeof_arena L) div sz;
                buddy_arena_index =
                  (if even arena_index then arena_index + 1 else arena_index - 1)
            in case arena_to_block L m a buddy_arena_index (block_size (ds ! i)) of
                 Inl e \<Rightarrow> Inl e
               | Inr buddy_block \<Rightarrow>
                   if buddy_block \<in> set (free_list (ds ! i)) then
                     (if odd arena_index then
                        coalesce L (set_free_list ds i (remove1 buddy_block (free_list (ds ! i))))
                          (store32 m (buddy_block + ofs_size L)
                             (wrap32 (load32 m (buddy_block + ofs_size L) * 2)))
                          cnt a buddy_block (i + 1)
                      else
                        coalesce L (set_free_list ds i (remove1 buddy_block (free_list (ds ! i))))
                          (store32 m (b + ofs_size L) (wrap32 (sz * 2)))
                          cnt a b (i + 1))
                   else Inr (list_push_back ds i b, m, i)))
      else Inr (ds, m, i))"
  by pat_completeness auto
termination
  by (relation "measure (\<lambda>(L, ds, m, cnt, a, b, i). cnt - i)") auto

text \<open>
  \<^verbatim>\<open>free\<close> first steps one header back from \<open>p\<close> and tests \<^verbatim>\<open>num_pages\<close> there; only on the
  small path does it call \<^verbatim>\<open>block_to_arena\<close>.
\<close>

definition free :: "layout \<Rightarrow> heap \<Rightarrow> nat \<Rightarrow> panic + heap" where
  "free L h p =
     (if p = 0 then Inr h
      else
        (let free_arena = wrap32 (p + 4294967296 - sizeof_arena L);
             num_pages = load32 (mem h) (free_arena + ofs_num_pages L)
         in if 0 < num_pages
            then Inr (h\<lparr>pcalls := pcalls h @ [Palloc_free free_arena num_pages]\<rparr>)
            else
              (let sz = load32 (mem h) (p + ofs_size L) in
               bindR (block_to_arena L (mem h) p sz)
                 (\<lambda>a. bindR (free_find (descs h) sz 0)
                    (\<lambda>i. bindR (coalesce L (descs h) (mem h) (desc_cnt h) a p i)
                       (\<lambda>(ds, m, i').
                          if i' = desc_cnt h
                          then Inr (h\<lparr>descs := ds, mem := m,
                                      arena_list := remove1 a (arena_list h),
                                      pcalls := pcalls h @ [Palloc_free a 1]\<rparr>)
                          else Inr (h\<lparr>descs := ds, mem := m\<rparr>)))))))"

section \<open>calloc and realloc\<close>

definition calloc :: "layout \<Rightarrow> heap \<Rightarrow> nat \<Rightarrow> nat \<Rightarrow> nat \<Rightarrow> panic + (heap \<times> nat)" where
  "calloc L h pg a b =
     (let sz = wrap32 (a * b) in
      if sz < a \<or> sz < b then Inr (h, 0)
      else bindR (malloc L h pg sz)
             (\<lambda>(h', p). if p \<noteq> 0 then Inr (h'\<lparr>mem := memset (mem h') p 0 sz\<rparr>, p)
                        else Inr (h', p)))"

definition realloc :: "layout \<Rightarrow> heap \<Rightarrow> nat \<Rightarrow> nat \<Rightarrow> nat \<Rightarrow> panic + (heap \<times> nat)" where
  "realloc L h pg old_block new_size =
     (if new_size = 0 then bindR (free L h old_block) (\<lambda>h'. Inr (h', 0))
      else
        bindR (malloc L h pg new_size)
          (\<lambda>(h1, new_block).
             if old_block \<noteq> 0 \<and> new_block \<noteq> 0 then
               (let old_size = load32 (mem h1) (old_block + ofs_size L);
                    min_size = (if new_size < old_size then new_size else old_size)
                in bindR (free L (h1\<lparr>mem := memcpy (mem h1) new_block old_block min_size\<rparr>)
                            old_block)
                     (\<lambda>h2. Inr (h2, new_block)))
             else Inr (h1, new_block)))"

section \<open>Signals\<close>

text \<open>The enumerations of \<^verbatim>\<open>threads/signal.h\<close>.\<close>

definition SIG_CHLD :: int where "SIG_CHLD = 0"
definition SIG_CPU :: int where "SIG_CPU = 1"
definition SIG_UBLOCK :: int where "SIG_UBLOCK = 2"
definition SIG_USR :: int where "SIG_USR = 3"
definition SIG_KILL :: int where "SIG_KILL = 4"

definition SIG_BLOCK :: int where "SIG_BLOCK = 0"
definition SIG_UNBLOCK :: int where "SIG_UNBLOCK = 1"
definition SIG_SETMASK :: int where "SIG_SETMASK = 2"

definition SIG_IGN :: int where "SIG_IGN = 0"
definition SIG_DFL :: int where "SIG_DFL = 1"

type_synonym sigset_t = "16 word"

text \<open>\<^verbatim>\<open>struct signal\<close> without its list link.\<close>

record signal =
  signum :: int
  sender :: int

text \<open>
  Modelled from the spec: \<^verbatim>\<open>struct thread\<close> is declared in \<^verbatim>\<open>threads/thread.h\<close>, which is
  not among the sources.  These are the fields \<^verbatim>\<open>signal.c\<close> reads and writes: the spec
  gives the thread a 16-bit signal mask, a list of pending \<open>(signum, sender)\<close> records and
  an upward parent link.  \<open>parent_thread\<close> is the address of the parent's control block.
\<close>

datatype thread_status = THREAD_RUNNING | THREAD_READY | THREAD_BLOCKED | THREAD_DYING

record thread =
  tid :: int
  status :: thread_status
  sigmask :: sigset_t
  pending_signals :: "signal list"
  parent_thread :: nat

text \<open>
  The kernel state the signal functions touch: the control blocks by address, the list of
  all threads, the running thread (\<^verbatim>\<open>thread_current ()\<close>), the global \<^verbatim>\<open>unblock_list\<close>,
  and the \<^verbatim>\<open>sigset_t\<close> objects of the callers by address (address 0 is the null pointer).
  The \<^verbatim>\<open>set\<close> and \<^verbatim>\<open>oldset\<close> arguments (\<open>set_p\<close> and \<open>oldset\<close> below) are addresses into \<open>sigsets\<close>, so two of them can
  name the same object.
\<close>

record kernel =
  tcb :: "nat \<Rightarrow> thread option"
  all_list :: "nat list"
  cur :: nat
  unblock_list :: "nat list"
  sigsets :: "nat \<Rightarrow> sigset_t"

definition thread_current :: "kernel \<Rightarrow> panic + thread" where
  "thread_current k = (case tcb k (cur k) of None \<Rightarrow> Inl BadPointer | Some t \<Rightarrow> Inr t)"

text \<open>
  Modelled from the spec: \<^verbatim>\<open>validated_tid\<close> is defined in \<^verbatim>\<open>threads/thread.c\<close>, which is
  not among the sources.  The spec lets \<^verbatim>\<open>kill\<close> fail for an unknown TID, so it yields the
  address of the first thread of \<open>all_list\<close> that carries the TID, and nothing when there
  is none.
\<close>

definition validated_tid :: "kernel \<Rightarrow> int \<Rightarrow> nat option" where
  "validated_tid k n =
     List.find (\<lambda>a. case tcb k a of None \<Rightarrow> False | Some t \<Rightarrow> tid t = n) (all_list k)"

definition set_sigmask :: "kernel \<Rightarrow> sigset_t \<Rightarrow> kernel" where
  "set_sigmask k w =
     k\<lparr>tcb := (tcb k)(cur k := map_option (\<lambda>t. t\<lparr>sigmask := w\<rparr>) (tcb k (cur k)))\<rparr>"

text \<open>
  \<^verbatim>\<open>signal_\<close> of the source; a name cannot end in an underscore here, hence the prime.
\<close>

definition signal_' :: "kernel \<Rightarrow> int \<Rightarrow> int \<Rightarrow> panic + (kernel \<times> int)" where
  "signal_' k sn handler =
     bindR (thread_current k)
       (\<lambda>t. if sn = 0 \<and> handler = SIG_IGN then Inr (set_sigmask k (sigmask t OR 1), 0)
            else if sn = 0 \<and> handler = SIG_DFL then Inr (set_sigmask k (sigmask t AND 14), 0)
            else if sn = 1 \<and> handler = SIG_IGN then Inr (set_sigmask k (sigmask t OR 2), 0)
            else if sn = 1 \<and> handler = SIG_DFL then Inr (set_sigmask k (sigmask t AND 13), 0)
            else if sn = 2 \<and> handler = SIG_IGN then Inr (set_sigmask k (sigmask t OR 4), 0)
            else if sn = 2 \<and> handler = SIG_DFL then Inr (set_sigmask k (sigmask t AND 11), 0)
            else if sn = 3 \<and> handler = SIG_IGN then Inr (set_sigmask k (sigmask t OR 8), 0)
            else if sn = 3 \<and> handler = SIG_DFL then Inr (set_sigmask k (sigmask t AND 7), 0)
            else Inr (k, 0))"

text \<open>
  The scan of \<^verbatim>\<open>pending_signals\<close> in \<^verbatim>\<open>kill\<close>: the first record with the signal number gets
  the new sender.
\<close>

fun overwrite_sender :: "int \<Rightarrow> int \<Rightarrow> signal list \<Rightarrow> signal list" where
  "overwrite_sender sn who [] = []"
| "overwrite_sender sn who (s # ss) =
     (if signum s = sn then s\<lparr>sender := who\<rparr> # ss else s # overwrite_sender sn who ss)"

text \<open>
  The tail both the \<^verbatim>\<open>SIG_USR\<close> and the \<^verbatim>\<open>SIG_KILL\<close> branch end with: overwrite the
  sender of a pending record of that number, or enqueue a new record.  \<open>mem_ok\<close> tells
  whether the \<^verbatim>\<open>malloc\<close> of the new record succeeds; the source does not test its result.
\<close>

definition post_signal :: "kernel \<Rightarrow> bool \<Rightarrow> nat \<Rightarrow> thread \<Rightarrow> int \<Rightarrow> panic + (kernel \<times> int)" where
  "post_signal k mem_ok ta t sn =
     bindR (thread_current k)
       (\<lambda>me. if list_ex (\<lambda>s. signum s = sn) (pending_signals t) then
                Inr (k\<lparr>tcb := (tcb k)(ta \<mapsto>
                        t\<lparr>pending_signals := overwrite_sender sn (tid me) (pending_signals t)\<rparr>)\<rparr>, 0)
              else if \<not> mem_ok then Inl BadPointer
              else
                Inr (k\<lparr>tcb := (tcb k)(ta \<mapsto>
                        t\<lparr>pending_signals :=
                            pending_signals t @ [\<lparr>signum = sn, sender = tid me\<rparr>]\<rparr>)\<rparr>, 0))"

text \<open>
  The \<^verbatim>\<open>for (;;)\<close> loop of the \<^verbatim>\<open>SIG_KILL\<close> branch.  It compares the caller's TID with the
  TID of the \<^emph>\<open>parent\<close> of \<open>tmp_thread\<close>, stops without success at a parent with TID 1, and
  climbs otherwise; on a parent chain that never meets either test it does not return.
\<close>

partial_function (option) parent_walk ::
  "(nat \<Rightarrow> thread option) \<Rightarrow> int \<Rightarrow> nat \<Rightarrow> (panic + bool) option"
where
  "parent_walk ts me tmp_thread =
     (case ts tmp_thread of
        None \<Rightarrow> Some (Inl BadPointer)
      | Some th \<Rightarrow>
          (case ts (parent_thread th) of
             None \<Rightarrow> Some (Inl BadPointer)
           | Some par \<Rightarrow>
               if me = tid par then Some (Inr True)
               else if tid par = 1 then Some (Inr False)
               else parent_walk ts me (parent_thread th)))"

definition kill :: "kernel \<Rightarrow> bool \<Rightarrow> int \<Rightarrow> int \<Rightarrow> (panic + (kernel \<times> int)) option" where
  "kill k mem_ok n sn =
     (case validated_tid k n of
        None \<Rightarrow> Some (Inr (k, - 1))
      | Some ta \<Rightarrow>
          (case tcb k ta of
             None \<Rightarrow> Some (Inl BadPointer)
           | Some t \<Rightarrow>
               if sn = SIG_UBLOCK then
                 (if sigmask t AND 4 \<noteq> 0 then Some (Inr (k, - 1))
                  else if status t \<noteq> THREAD_BLOCKED then Some (Inr (k, 0))
                  else Some (Inr (k\<lparr>unblock_list := unblock_list k @ [ta]\<rparr>, 0)))
               else if sn = SIG_USR then
                 (if sigmask t AND 8 \<noteq> 0 then Some (Inr (k, - 1))
                  else Some (post_signal k mem_ok ta t sn))
               else if sn = SIG_KILL then
                 (case thread_current k of
                    Inl e \<Rightarrow> Some (Inl e)
                  | Inr me \<Rightarrow>
                      (case parent_walk (tcb k) (tid me) ta of
                         None \<Rightarrow> None
                       | Some (Inl e) \<Rightarrow> Some (Inl e)
                       | Some (Inr parent_found) \<Rightarrow>
                           if \<not> parent_found then Some (Inr (k, - 1))
                           else Some (post_signal k mem_ok ta t sn)))
               else Some (Inr (k, - 1))))"

definition sigemptyset :: "kernel \<Rightarrow> nat \<Rightarrow> panic + (kernel \<times> int)" where
  "sigemptyset k set_p =
     (if set_p = 0 then Inl BadPointer else Inr (k\<lparr>sigsets := (sigsets k)(set_p := 0)\<rparr>, 0))"

definition sigfillset :: "kernel \<Rightarrow> nat \<Rightarrow> panic + (kernel \<times> int)" where
  "sigfillset k set_p =
     (if set_p = 0 then Inl BadPointer else Inr (k\<lparr>sigsets := (sigsets k)(set_p := 31)\<rparr>, 0))"

definition sigdelset :: "kernel \<Rightarrow> nat \<Rightarrow> int \<Rightarrow> panic + (kernel \<times> int)" where
  "sigdelset k set_p sn =
     (if sn < 0 \<or> sn > 4 then Inr (k, - 1)
      else if set_p = 0 then Inl BadPointer
      else Inr (k\<lparr>sigsets := (sigsets k)
                   (set_p := sigsets k set_p AND ([30, 29, 27, 23, 15] ! nat sn))\<rparr>, 0))"

definition sigaddset :: "kernel \<Rightarrow> nat \<Rightarrow> int \<Rightarrow> panic + (kernel \<times> int)" where
  "sigaddset k set_p sn =
     (if sn < 0 \<or> sn > 4 then Inr (k, - 1)
      else if set_p = 0 then Inl BadPointer
      else Inr (k\<lparr>sigsets := (sigsets k)
                   (set_p := sigsets k set_p OR ([1, 2, 4, 8, 16] ! nat sn))\<rparr>, 0))"

text \<open>
  \<^verbatim>\<open>sigprocmask\<close> writes \<^verbatim>\<open>*oldset\<close> first and reads \<^verbatim>\<open>*set\<close> afterwards, from the
  updated objects.
\<close>

definition sigprocmask :: "kernel \<Rightarrow> int \<Rightarrow> nat \<Rightarrow> nat \<Rightarrow> panic + (kernel \<times> int)" where
  "sigprocmask k how set_p oldset =
     bindR (thread_current k)
       (\<lambda>t. let k1 = (if oldset \<noteq> 0 then k\<lparr>sigsets := (sigsets k)(oldset := sigmask t)\<rparr>
                       else k)
            in if how = SIG_BLOCK then
                 (if set_p = 0 then Inl BadPointer
                  else Inr (set_sigmask k1 (sigmask t OR sigsets k1 set_p), 0))
               else if how = SIG_UNBLOCK then
                 (if set_p = 0 then Inl BadPointer
                  else Inr (set_sigmask k1 (sigmask t AND NOT (sigsets k1 set_p)), 0))
               else if how = SIG_SETMASK then
                 (if set_p = 0 then Inl BadPointer
                  else Inr (set_sigmask k1 (sigsets k1 set_p), 0))
               else Inr (k1, 0))"

text \<open>
  A sequence of \<^verbatim>\<open>kill\<close> calls, each made by the thread \<open>caller\<close>; the run ends at the first
  call that panics or does not return.
\<close>

record kill_call =
  caller :: nat
  target :: int
  sig_no :: int
  alloc_ok :: bool

fun run_kills :: "kernel \<Rightarrow> kill_call list \<Rightarrow> (panic + kernel) option" where
  "run_kills k [] = Some (Inr k)"
| "run_kills k (c # cs) =
     (case kill (k\<lparr>cur := caller c\<rparr>) (alloc_ok c) (target c) (sig_no c) of
        None \<Rightarrow> None
      | Some (Inl e) \<Rightarrow> Some (Inl e)
      | Some (Inr (k', r)) \<Rightarrow> run_kills k' cs)"

section \<open>States used in the scenarios\<close>

text \<open>
  The heap \<^verbatim>\<open>malloc_init\<close> leaves behind on the 4096-byte page: seven descriptors for the
  classes 16 to 1024, every free list empty, no arena registered.
\<close>

definition mk_desc :: "nat \<Rightarrow> nat list \<Rightarrow> desc" where
  "mk_desc bs fl = \<lparr>block_size = bs, blocks_per_arena = 0, free_list = fl\<rparr>"

definition ready_heap :: "memory \<Rightarrow> heap" where
  "ready_heap m =
     \<lparr>descs = [mk_desc 16 [], mk_desc 32 [], mk_desc 64 [], mk_desc 128 [], mk_desc 256 [],
               mk_desc 512 [], mk_desc 1024 [], mk_desc 0 [], mk_desc 0 [], mk_desc 0 []],
      desc_cnt = 7, arena_list = [], mem = m, pcalls = []\<rparr>"

text \<open>
  The page \<open>pg\<close> after it has been carved for a request of class 64: the header, then the
  stored sizes of block 1 of the classes 1024 down to 64 and of the block handed out.
\<close>

definition carved_mem :: "layout \<Rightarrow> memory \<Rightarrow> nat \<Rightarrow> memory" where
  "carved_mem L m pg =
     (let b = pg + sizeof_arena L;
          m1 = store32 (store32 m pg ARENA_MAGIC) (pg + ofs_num_pages L) 0;
          m2 = store32 m1 (b + 1024 + ofs_size L) 1024;
          m3 = store32 m2 (b + 512 + ofs_size L) 512;
          m4 = store32 m3 (b + 256 + ofs_size L) 256;
          m5 = store32 m4 (b + 128 + ofs_size L) 128;
          m6 = store32 m5 (b + 64 + ofs_size L) 64
      in store32 m6 (b + ofs_size L) 64)"

definition carved_heap :: "layout \<Rightarrow> memory \<Rightarrow> nat \<Rightarrow> heap" where
  "carved_heap L m pg =
     (let b = pg + sizeof_arena L in
      \<lparr>descs = [mk_desc 16 [], mk_desc 32 [], mk_desc 64 [b + 64], mk_desc 128 [b + 128],
                mk_desc 256 [b + 256], mk_desc 512 [b + 512], mk_desc 1024 [b + 1024],
                mk_desc 0 [], mk_desc 0 [], mk_desc 0 []],
       desc_cnt = 7, arena_list = [pg], mem = carved_mem L m pg,
       pcalls = [Palloc_get 1 pg]\<rparr>)"

text \<open>The same page after the block has been merged with its buddies five times.\<close>

definition merged_mem :: "layout \<Rightarrow> memory \<Rightarrow> nat \<Rightarrow> memory" where
  "merged_mem L m pg =
     (let s = pg + sizeof_arena L + ofs_size L in
      store32 (store32 (store32 (store32 (store32 (carved_mem L m pg) s 128) s 256) s 512)
        s 1024) s 2048)"

text \<open>
  The page at \<open>0xC0100000\<close> under \<open>i386_layout\<close> after it has been carved for a request of
  class 16; \<open>fl\<close> is the free list of class 16.
\<close>

definition pair_mem :: "memory \<Rightarrow> memory" where
  "pair_mem m =
     (let m1 = store32 (store32 m 3222274048 ARENA_MAGIC) 3222274068 0;
          m2 = store32 m1 3222275108 1024;
          m3 = store32 m2 3222274596 512;
          m4 = store32 m3 3222274340 256;
          m5 = store32 m4 3222274212 128;
          m6 = store32 m5 3222274148 64;
          m7 = store32 m6 3222274116 32;
          m8 = store32 m7 3222274100 16
      in store32 m8 3222274084 16)"

definition pair_heap :: "memory \<Rightarrow> nat list \<Rightarrow> heap" where
  "pair_heap m fl =
     \<lparr>descs = [mk_desc 16 fl, mk_desc 32 [3222274104], mk_desc 64 [3222274136],
               mk_desc 128 [3222274200], mk_desc 256 [3222274328], mk_desc 512 [3222274584],
               mk_desc 1024 [3222275096], mk_desc 0 [], mk_desc 0 [], mk_desc 0 []],
      desc_cnt = 7, arena_list = [3222274048], mem = pair_mem m,
      pcalls = [Palloc_get 1 3222274048]\<rparr>"

text \<open>No free list holds the null pointer.\<close>

definition nonnull :: "desc list \<Rightarrow> bool" where
  "nonnull ds = list_all (\<lambda>d. 0 \<notin> set (free_list d)) ds"

text \<open>The number of pending records with a given signal number.\<close>

definition count_sig :: "int \<Rightarrow> signal list \<Rightarrow> nat" where
  "count_sig sn ps = length (filter (\<lambda>s. signum s = sn) ps)"

definition at_most_one :: "kernel \<Rightarrow> nat \<Rightarrow> bool" where
  "at_most_one k a =
     (case tcb k a of
        None \<Rightarrow> False
      | Some t \<Rightarrow> count_sig SIG_USR (pending_signals t) \<le> 1 \<and>
                  count_sig SIG_KILL (pending_signals t) \<le> 1)"

text \<open>
  Two threads: the root thread (TID 1, its own parent) at address 100 and a child of it
  (TID 2) at address 200 that masks \<^verbatim>\<open>SIG_CHLD\<close>; one \<^verbatim>\<open>sigset_t\<close> object at address 300
  holding \<^verbatim>\<open>SIG_USR\<close>.  The argument is the running thread.
\<close>

definition root_thread :: thread where
  "root_thread =
     \<lparr>tid = 1, status = THREAD_READY, sigmask = 0, pending_signals = [], parent_thread = 100\<rparr>"

definition child_thread :: thread where
  "child_thread =
     \<lparr>tid = 2, status = THREAD_RUNNING, sigmask = 1, pending_signals = [], parent_thread = 100\<rparr>"

definition demo_kernel :: "nat \<Rightarrow> kernel" where
  "demo_kernel c =
     \<lparr>tcb = [100 \<mapsto> root_thread, 200 \<mapsto> child_thread], all_list = [100, 200], cur = c,
      unblock_list = [], sigsets = (\<lambda>_. 0)(300 := 8)\<rparr>"

definition with_pending :: "kernel \<Rightarrow> nat \<Rightarrow> thread \<Rightarrow> signal list \<Rightarrow> kernel" where
  "with_pending k a t ps = k\<lparr>tcb := (tcb k)(a \<mapsto> t\<lparr>pending_signals := ps\<rparr>)\<rparr>"

text \<open>
  The caller's TID \<open>me\<close> is met on the parent chain of the thread at \<open>a\<close> within \<open>fuel\<close>
  steps: the parent of the thread carries it, or the parent carries neither it nor TID 1
  and the same holds one step up.
\<close>

fun ancestor_within :: "(nat \<Rightarrow> thread option) \<Rightarrow> int \<Rightarrow> nat \<Rightarrow> nat \<Rightarrow> bool" where
  "ancestor_within ts me a 0 = False"
| "ancestor_within ts me a (Suc fuel) =
     (case ts a of
        None \<Rightarrow> False
      | Some th \<Rightarrow>
          (case ts (parent_thread th) of
             None \<Rightarrow> False
           | Some par \<Rightarrow>
               (if tid par = me then True
                else if tid par = 1 then False
                else ancestor_within ts me (parent_thread th) fuel)))"

declare init_descs.simps [simp del] find_desc.simps [simp del] skip_empty.simps [simp del]
  fresh_split.simps [simp del] find_idx.simps [simp del] split_loop.simps [simp del]
  free_find.simps [simp del] coalesce.simps [simp del]

section \<open>Memory and list lemmas\<close>

lemma bindR_simps [simp]: "bindR (Inl e) f = Inl e" "bindR (Inr x) f = f x"
  by (simp_all add: bindR_def)

lemma load32_store32_same: "load32 (store32 m a v) a = wrap32 v"
proof -
  have u: "unat (of_nat x :: byte) = x mod 256" for x
    by (simp add: unat_of_nat)
  have "load32 (store32 m a v) a =
      v mod 256 + 256 * (v div 256 mod 256) + 65536 * (v div 65536 mod 256)
        + 16777216 * (v div 16777216 mod 256)"
    by (simp add: load32_def store32_def u)
  also have "\<dots> = v mod 4294967296"
  proof -
    have a: "v mod (256 * 16777216) = 256 * (v div 256 mod 16777216) + v mod 256"
      by (rule mod_mult2_eq)
    have b: "(v div 256) mod (256 * 65536)
        = 256 * (v div 256 div 256 mod 65536) + v div 256 mod 256"
      by (rule mod_mult2_eq)
    have c: "(v div 65536) mod (256 * 256)
        = 256 * (v div 65536 div 256 mod 256) + v div 65536 mod 256"
      by (rule mod_mult2_eq)
    have d1: "v div 256 div 256 = v div 65536" by (simp add: div_mult2_eq [symmetric])
    have d2: "v div 65536 div 256 = v div 16777216" by (simp add: div_mult2_eq [symmetric])
    show ?thesis using a b c by (simp add: d1 d2)
  qed
  finally show ?thesis by (simp add: wrap32_def)
qed

lemma load32_store32_other:
  "a + 4 \<le> b \<or> b + 4 \<le> a \<Longrightarrow> load32 (store32 m a v) b = load32 m b"
  by (auto simp: load32_def store32_def)

lemma list_update_Cons_numeral [simp]:
  "(x # xs)[numeral v := y] = x # xs[numeral v - 1 := y]"
  by (simp add: numeral_eq_Suc)

lemma replicate_numeral [simp]:
  "replicate (numeral v) x = x # replicate (numeral v - 1) x"
  by (simp add: numeral_eq_Suc)

lemma pg_ofs_base:
  "pg mod PGSIZE = 0 \<Longrightarrow> x < PGSIZE \<Longrightarrow> pg_ofs (pg + x) = x"
  by (simp add: pg_ofs_def mod_add_left_eq [symmetric])

lemma pg_round_down_base:
  "pg mod PGSIZE = 0 \<Longrightarrow> x < PGSIZE \<Longrightarrow> pg_round_down (pg + x) = pg"
  using pg_ofs_base [of pg x] by (simp add: pg_round_down_def pg_ofs_def)

section \<open>The descriptor table after initialisation\<close>

lemma malloc_init_boot: "malloc_init (boot_heap m) = Inr (ready_heap m)"
  by (simp add: malloc_init_def boot_heap_def ready_heap_def mk_desc_def init_descs.simps
      PGSIZE_def wrap32_def)

lemma ready_cnt: "desc_cnt (ready_heap m) = 7"
  by (simp add: ready_heap_def)

text \<open>
  C5, as the code has it.  After \<^verbatim>\<open>malloc_init\<close> on the zero-initialised static data the
  table holds exactly the seven descriptors 16, 32, ..., 1024, one for every power of two
  from 16 up to a quarter of the page, each with an empty free list.  \<^verbatim>\<open>malloc_init\<close>
  never assigns \<^verbatim>\<open>blocks_per_arena\<close>, so that field keeps its initial value 0 in every
  descriptor.
\<close>

theorem malloc_init_table:
  "\<exists>h. malloc_init (boot_heap m) = Inr h \<and> desc_cnt h = 7 \<and>
       map block_size (take (desc_cnt h) (descs h)) = [16, 32, 64, 128, 256, 512, 1024] \<and>
       map block_size (take (desc_cnt h) (descs h)) = map (\<lambda>i. 2 ^ i) [4..<11] \<and>
       (2::nat) ^ 10 = PGSIZE div 4 \<and>
       map blocks_per_arena (take (desc_cnt h) (descs h)) = [0, 0, 0, 0, 0, 0, 0] \<and>
       map free_list (take (desc_cnt h) (descs h)) = [[], [], [], [], [], [], []]"
  by (simp add: malloc_init_boot ready_heap_def mk_desc_def PGSIZE_def)

text \<open>
  C5 as stated fails: the claim wants \<^verbatim>\<open>blocks_per_arena\<close> to be
  \<open>(page_size - sizeof (arena)) / block_size\<close>, which is 254, 127, ... for the seven
  classes, while the table holds 0 everywhere.
\<close>

theorem blocks_per_arena_counterexample:
  "map_sum id (\<lambda>h. map blocks_per_arena (take (desc_cnt h) (descs h)))
     (malloc_init (boot_heap (\<lambda>_. 0))) = Inr [0, 0, 0, 0, 0, 0, 0] \<and>
   map (\<lambda>bs. (PGSIZE - sizeof_arena i386_layout) div bs) [16, 32, 64, 128, 256, 512, 1024]
     = [254, 127, 63, 31, 15, 7, 3]"
  by (simp add: malloc_init_boot ready_heap_def mk_desc_def PGSIZE_def i386_layout_def)

section \<open>Scenario S1: a request of 40 bytes on an empty heap\<close>

lemma find_desc_ready: "find_desc (descs (ready_heap m)) 7 40 0 = Inr 2"
  by (simp add: ready_heap_def mk_desc_def find_desc.simps)

lemma skip_empty_ready: "skip_empty (descs (ready_heap m)) 7 2 = Inr 7"
  by (simp add: ready_heap_def mk_desc_def skip_empty.simps)

lemma malloc_40:
  assumes L: "layout_ok L" and pg: "0 < pg"
  shows "malloc L (ready_heap m) pg 40 = Inr (carved_heap L m pg, pg + sizeof_arena L)"
proof -
  have h: "4 \<le> ofs_num_pages L" "ofs_num_pages L + 4 \<le> sizeof_arena L"
    using L by (simp_all add: layout_ok_def)
  show ?thesis
    using h pg
    apply (simp add: malloc_def ready_cnt find_desc_ready skip_empty_ready)
    apply (simp add: malloc_fresh_def ready_heap_def mk_desc_def fresh_split.simps
        arena_to_block_def list_push_back_def load32_store32_same load32_store32_other
        wrap32_def ARENA_MAGIC_def carved_heap_def carved_mem_def Let_def add.assoc)
    done
qed

lemma carved_loads:
  assumes L: "layout_ok L"
  shows "load32 (carved_mem L m pg) pg = ARENA_MAGIC"
    and "load32 (carved_mem L m pg) (pg + ofs_num_pages L) = 0"
    and "load32 (carved_mem L m pg) (pg + sizeof_arena L + ofs_size L) = 64"
proof -
  have h: "4 \<le> ofs_num_pages L" "ofs_num_pages L + 4 \<le> sizeof_arena L"
    using L by (simp_all add: layout_ok_def)
  show "load32 (carved_mem L m pg) pg = ARENA_MAGIC"
    using h by (simp add: carved_mem_def Let_def load32_store32_same load32_store32_other
        wrap32_def ARENA_MAGIC_def)
  show "load32 (carved_mem L m pg) (pg + ofs_num_pages L) = 0"
    using h by (simp add: carved_mem_def Let_def load32_store32_same load32_store32_other
        wrap32_def)
  show "load32 (carved_mem L m pg) (pg + sizeof_arena L + ofs_size L) = 64"
    using h by (simp add: carved_mem_def Let_def load32_store32_same load32_store32_other
        wrap32_def)
qed

lemma coalesce_40:
  assumes L: "layout_ok L" and pg: "0 < pg" "pg mod PGSIZE = 0"
  shows "coalesce L (descs (carved_heap L m pg)) (carved_mem L m pg) 7 pg
           (pg + sizeof_arena L) 2 = Inr (descs (ready_heap m), merged_mem L m pg, 7)"
proof -
  have h: "4 \<le> ofs_num_pages L" "ofs_num_pages L + 4 \<le> sizeof_arena L"
    "sizeof_arena L + 2048 \<le> 4096"
    using L by (simp_all add: layout_ok_def PGSIZE_def)
  have ofs: "pg_ofs (pg + sizeof_arena L) = sizeof_arena L"
    using pg h by (intro pg_ofs_base) (simp_all add: PGSIZE_def)
  define M where "M = carved_mem L m pg"
  have mg: "load32 M pg = ARENA_MAGIC"
    and sz: "load32 M (pg + sizeof_arena L + ofs_size L) = 64"
    using carved_loads [OF L] by (simp_all add: M_def)
  have "coalesce L (descs (carved_heap L m pg)) M 7 pg (pg + sizeof_arena L) 2 =
      Inr (descs (ready_heap m),
           store32 (store32 (store32 (store32 (store32 M
             (pg + sizeof_arena L + ofs_size L) 128) (pg + sizeof_arena L + ofs_size L) 256)
             (pg + sizeof_arena L + ofs_size L) 512) (pg + sizeof_arena L + ofs_size L) 1024)
             (pg + sizeof_arena L + ofs_size L) 2048, 7)"
    using h pg mg sz
    apply (simp add: carved_heap_def ready_heap_def mk_desc_def Let_def)
    apply (simp add: coalesce.simps ofs arena_to_block_def set_free_list_def
        load32_store32_same load32_store32_other wrap32_def Let_def)
    done
  then show ?thesis by (simp add: M_def merged_mem_def Let_def)
qed

lemma free_40:
  assumes L: "layout_ok L" and pg: "0 < pg" "pg mod PGSIZE = 0" "pg + PGSIZE \<le> 4294967296"
  shows "free L (carved_heap L m pg) (pg + sizeof_arena L) =
           Inr ((ready_heap (merged_mem L m pg))
                  \<lparr>pcalls := [Palloc_get 1 pg, Palloc_free pg 1]\<rparr>)"
proof -
  have h: "sizeof_arena L + 2048 \<le> 4096"
    using L by (simp add: layout_ok_def PGSIZE_def)
  have hdr_wrap: "wrap32 (pg + 4294967296) = pg"
    using pg by (simp add: wrap32_def PGSIZE_def)
  have ofs: "pg_ofs (pg + sizeof_arena L) = sizeof_arena L"
    using pg h by (intro pg_ofs_base) (simp_all add: PGSIZE_def)
  have rd: "pg_round_down (pg + sizeof_arena L) = pg"
    using pg h by (intro pg_round_down_base) (simp_all add: PGSIZE_def)
  have ff: "free_find (descs (carved_heap L m pg)) 64 0 = Inr 2"
    by (simp add: carved_heap_def mk_desc_def free_find.simps Let_def)
  have fields: "mem (carved_heap L m pg) = carved_mem L m pg"
    "desc_cnt (carved_heap L m pg) = 7" "arena_list (carved_heap L m pg) = [pg]"
    "pcalls (carved_heap L m pg) = [Palloc_get 1 pg]"
    by (simp_all add: carved_heap_def Let_def)
  have bta: "block_to_arena L (carved_mem L m pg) (pg + sizeof_arena L) 64 = Inr pg"
    using pg by (simp add: block_to_arena_def rd carved_loads [OF L] ofs wrap32_def Let_def)
  show ?thesis
    using pg
    by (simp add: free_def hdr_wrap fields carved_loads [OF L] bta ff
        coalesce_40 [OF L pg(1,2)] Let_def)
      (simp add: carved_heap_def ready_heap_def Let_def)
qed

lemma merged_size:
  "load32 (merged_mem L m pg) (pg + sizeof_arena L + ofs_size L) = 2048"
  unfolding merged_mem_def Let_def
  by (rule trans [OF load32_store32_same]) (simp add: wrap32_def)

text \<open>
  C4.  On the heap \<^verbatim>\<open>malloc_init\<close> leaves behind, with pages of 4096 bytes, a request of
  40 bytes picks descriptor 2 (class 64), asks the page allocator for exactly one page,
  leaves one block of that page on each of the free lists of the classes 1024, 512, 256
  and 128 (and the buddy on the list of class 64), and returns the first block, whose
  stored size is 64.  Freeing that pointer merges it with its buddy at every class up to
  the top (the stored size ends at 2048, every free list is empty again), removes the
  arena from \<^verbatim>\<open>arena_list\<close> and returns the single page to the page allocator.  This
  holds for every page-aligned page \<open>pg\<close>, every prior memory content and every usable
  layout of the header.
\<close>

theorem alloc_40_then_free:
  assumes "layout_ok L" "0 < pg" "pg mod PGSIZE = 0" "pg + PGSIZE \<le> 4294967296"
  shows "\<exists>h0 h1 h2.
     malloc_init (boot_heap m) = Inr h0 \<and>
     find_desc (descs h0) (desc_cnt h0) 40 0 = Inr 2 \<and> block_size (descs h0 ! 2) = 64 \<and>
     malloc L h0 pg 40 = Inr (h1, pg + sizeof_arena L) \<and>
     pcalls h1 = [Palloc_get 1 pg] \<and> arena_list h1 = [pg] \<and>
     map (\<lambda>d. (block_size d, free_list d)) (take (desc_cnt h1) (descs h1)) =
       [(16, []), (32, []), (64, [pg + sizeof_arena L + 64]),
        (128, [pg + sizeof_arena L + 128]), (256, [pg + sizeof_arena L + 256]),
        (512, [pg + sizeof_arena L + 512]), (1024, [pg + sizeof_arena L + 1024])] \<and>
     map pg_round_down [pg + sizeof_arena L + 128, pg + sizeof_arena L + 256,
        pg + sizeof_arena L + 512, pg + sizeof_arena L + 1024] = [pg, pg, pg, pg] \<and>
     load32 (mem h1) (pg + sizeof_arena L + ofs_size L) = 64 \<and>
     free L h1 (pg + sizeof_arena L) = Inr h2 \<and>
     map (\<lambda>d. (block_size d, free_list d)) (take (desc_cnt h2) (descs h2)) =
       [(16, []), (32, []), (64, []), (128, []), (256, []), (512, []), (1024, [])] \<and>
     load32 (mem h2) (pg + sizeof_arena L + ofs_size L) = 2048 \<and>
     arena_list h2 = [] \<and> pcalls h2 = [Palloc_get 1 pg, Palloc_free pg 1]"
proof -
  have h: "sizeof_arena L + 2048 \<le> 4096"
    using assms(1) by (simp add: layout_ok_def PGSIZE_def)
  have rd: "pg_round_down (pg + (sizeof_arena L + x)) = pg" if "x \<le> 1024" for x
    using assms(3) h that by (intro pg_round_down_base) (simp_all add: PGSIZE_def)
  have a: "find_desc (descs (ready_heap m)) (desc_cnt (ready_heap m)) 40 0 = Inr 2"
    by (simp add: ready_cnt find_desc_ready)
  have b: "block_size (descs (ready_heap m) ! 2) = 64"
    by (simp add: ready_heap_def mk_desc_def)
  have c: "map (\<lambda>d. (block_size d, free_list d))
      (take (desc_cnt (carved_heap L m pg)) (descs (carved_heap L m pg))) =
       [(16, []), (32, []), (64, [pg + sizeof_arena L + 64]),
        (128, [pg + sizeof_arena L + 128]), (256, [pg + sizeof_arena L + 256]),
        (512, [pg + sizeof_arena L + 512]), (1024, [pg + sizeof_arena L + 1024])]"
    by (simp add: carved_heap_def mk_desc_def Let_def)
  have d: "pcalls (carved_heap L m pg) = [Palloc_get 1 pg]"
    "arena_list (carved_heap L m pg) = [pg]"
    "mem (carved_heap L m pg) = carved_mem L m pg"
    by (simp_all add: carved_heap_def Let_def)
  have e: "map pg_round_down [pg + sizeof_arena L + 128, pg + sizeof_arena L + 256,
        pg + sizeof_arena L + 512, pg + sizeof_arena L + 1024] = [pg, pg, pg, pg]"
    by (simp add: rd add.assoc)
  have f: "map (\<lambda>d. (block_size d, free_list d)) (take 7 (descs (ready_heap m'))) =
       [(16, []), (32, []), (64, []), (128, []), (256, []), (512, []), (1024, [])]" for m'
    by (simp add: ready_heap_def mk_desc_def)
  have g: "mem (ready_heap m') = m'" "arena_list (ready_heap m') = []" for m'
    by (simp_all add: ready_heap_def)
  show ?thesis
    apply (rule exI [of _ "ready_heap m"])
    apply (rule exI [of _ "carved_heap L m pg"])
    apply (rule exI [of _ "(ready_heap (merged_mem L m pg))
                  \<lparr>pcalls := [Palloc_get 1 pg, Palloc_free pg 1]\<rparr>"])
    apply (simp only: malloc_init_boot a b c d e malloc_40 [OF assms(1,2)]
        free_40 [OF assms] carved_loads [OF assms(1)] simp_thms)
    apply (simp add: f ready_cnt merged_size g)
    done
qed

theorem alloc_40_then_free_witness:
  "layout_ok spec_layout \<and> (0::nat) < 3222274048 \<and> 3222274048 mod PGSIZE = 0 \<and>
   3222274048 + PGSIZE \<le> 4294967296 \<and>
   (\<exists>h0 h1 h2.
      malloc_init (boot_heap (\<lambda>_. 0)) = Inr h0 \<and>
      malloc spec_layout h0 3222274048 40 = Inr (h1, 3222274080) \<and>
      pcalls h1 = [Palloc_get 1 3222274048] \<and>
      map (\<lambda>d. (block_size d, free_list d)) (take (desc_cnt h1) (descs h1)) =
        [(16, []), (32, []), (64, [3222274144]), (128, [3222274208]), (256, [3222274336]),
         (512, [3222274592]), (1024, [3222275104])] \<and>
      free spec_layout h1 3222274080 = Inr h2 \<and>
      map (\<lambda>d. (block_size d, free_list d)) (take (desc_cnt h2) (descs h2)) =
        [(16, []), (32, []), (64, []), (128, []), (256, []), (512, []), (1024, [])] \<and>
      arena_list h2 = [] \<and>
      pcalls h2 = [Palloc_get 1 3222274048, Palloc_free 3222274048 1])"
proof -
  have h1: "layout_ok spec_layout" by (simp add: layout_ok_def spec_layout_def PGSIZE_def)
  have h2: "(0::nat) < 3222274048" by simp
  have h3: "3222274048 mod PGSIZE = 0" by (simp add: PGSIZE_def)
  have h4: "3222274048 + PGSIZE \<le> 4294967296" by (simp add: PGSIZE_def)
  have s: "sizeof_arena spec_layout = 32" by (simp add: spec_layout_def)
  show ?thesis
    using alloc_40_then_free [OF h1 h2 h3 h4, of "\<lambda>_. 0"] h1 h2 h3 h4
    by (elim exE conjE, intro conjI exI) (simp_all add: s)
qed

section \<open>free on the second block of a page\<close>

lemma pair_mem_loads:
  "load32 (pair_mem m) 3222274048 = ARENA_MAGIC"
  "load32 (pair_mem m) 3222274068 = 0"
  "load32 (pair_mem m) 3222274084 = 16"
  "load32 (pair_mem m) 3222274100 = 16"
  by (simp_all add: pair_mem_def Let_def load32_store32_same load32_store32_other wrap32_def
      ARENA_MAGIC_def)

lemma first_16:
  "malloc i386_layout (ready_heap m) 3222274048 16 =
     Inr (pair_heap m [3222274088], 3222274072)"
proof -
  have fd: "find_desc (descs (ready_heap m)) 7 16 0 = Inr 0"
    by (simp add: ready_heap_def mk_desc_def find_desc.simps)
  have se: "skip_empty (descs (ready_heap m)) 7 0 = Inr 7"
    by (simp add: ready_heap_def mk_desc_def skip_empty.simps)
  show ?thesis
    apply (simp add: malloc_def ready_cnt fd se)
    apply (simp add: malloc_fresh_def ready_heap_def mk_desc_def fresh_split.simps
        arena_to_block_def list_push_back_def load32_store32_same load32_store32_other
        wrap32_def ARENA_MAGIC_def pair_heap_def pair_mem_def i386_layout_def Let_def)
    done
qed

lemma second_16:
  "malloc i386_layout (pair_heap m [3222274088]) pg 16 = Inr (pair_heap m [], 3222274088)"
proof -
  have fd: "find_desc (descs (pair_heap m [3222274088])) 7 16 0 = Inr 0"
    by (simp add: pair_heap_def mk_desc_def find_desc.simps)
  have se: "skip_empty (descs (pair_heap m [3222274088])) 7 0 = Inr 0"
    by (simp add: pair_heap_def mk_desc_def skip_empty.simps)
  have cnt: "desc_cnt (pair_heap m [3222274088]) = 7" by (simp add: pair_heap_def)
  have rd: "pg_round_down 3222274088 = 3222274048" "pg_ofs 3222274088 = 40"
    by (simp_all add: pg_round_down_def pg_ofs_def PGSIZE_def)
  have bta: "block_to_arena i386_layout (pair_mem m) 3222274088 16 = Inr 3222274048"
    by (simp add: block_to_arena_def rd pair_mem_loads i386_layout_def wrap32_def)
  show ?thesis
    apply (simp add: malloc_def cnt fd se)
    apply (simp add: malloc_split_def pair_heap_def mk_desc_def)
    apply (simp add: i386_layout_def pair_mem_loads)
    apply (simp add: bta [unfolded i386_layout_def] find_idx.simps
        list_pop_front_def set_free_list_def)
    done
qed

lemma free_second:
  "free i386_layout (pair_heap m []) 3222274088 =
     Inr ((pair_heap m [])\<lparr>pcalls := [Palloc_get 1 3222274048, Palloc_free 3222274064 16]\<rparr>)"
  by (simp add: free_def i386_layout_def wrap32_def Let_def)
    (simp add: pair_heap_def pair_mem_loads)

text \<open>
  What \<^verbatim>\<open>free\<close> does first, for every pointer and every heap: when the word one header
  back from \<open>p\<close> at the offset of \<^verbatim>\<open>num_pages\<close> is positive, that many pages are handed to
  the page allocator in one call and nothing else happens; no magic number is looked at.
  A pointer from the oversized path of \<^verbatim>\<open>malloc\<close> is released this way.
\<close>

lemma free_big_path:
  assumes "p \<noteq> 0"
    and "0 < load32 (mem h) (wrap32 (p + 4294967296 - sizeof_arena L) + ofs_num_pages L)"
  shows "free L h p =
     Inr (h\<lparr>pcalls := pcalls h @
            [Palloc_free (wrap32 (p + 4294967296 - sizeof_arena L))
               (load32 (mem h) (wrap32 (p + 4294967296 - sizeof_arena L) + ofs_num_pages L))]\<rparr>)"
  using assms by (simp add: free_def Let_def)

lemma free_after_malloc_big:
  assumes "0 < pg" "pg + sizeof_arena L < 4294967296"
    and "malloc_big L h pg sz = Inr (h1, p)"
    and "0 < wrap32 (wrap32 (sz + sizeof_arena L) + PGSIZE - 1) div PGSIZE"
  shows "p = pg + sizeof_arena L \<and>
     free L h1 p = Inr (h1\<lparr>pcalls := pcalls h1 @
       [Palloc_free pg (wrap32 (wrap32 (sz + sizeof_arena L) + PGSIZE - 1) div PGSIZE)]\<rparr>)"
proof -
  let ?n = "wrap32 (wrap32 (sz + sizeof_arena L) + PGSIZE - 1) div PGSIZE"
  have p: "p = pg + sizeof_arena L"
    and h1: "h1 = h\<lparr>pcalls := pcalls h @ [Palloc_get ?n pg],
                    mem := store32 (store32 (mem h) pg ARENA_MAGIC) (pg + ofs_num_pages L) ?n\<rparr>"
    using assms(1,3) by (auto simp: malloc_big_def Let_def)
  have stp: "wrap32 (pg + 4294967296) = pg"
    using assms(2) by (simp add: wrap32_def)
  have "?n \<le> wrap32 (wrap32 (sz + sizeof_arena L) + PGSIZE - 1)" by (rule div_le_dividend)
  also have "\<dots> < 4294967296" by (simp add: wrap32_def)
  finally have lt: "?n < 4294967296" .
  have ld: "load32 (mem h1) (pg + ofs_num_pages L) = ?n"
    unfolding h1 using lt by (simp add: load32_store32_same) (simp add: wrap32_def)
  have "p \<noteq> 0" using assms(1) p by simp
  from free_big_path [OF this, of h1 L] assms(4) ld show ?thesis
    by (simp add: p stp)
qed

text \<open>
  C1, where the code departs from the claim.  Two requests of 16 bytes on the initialised
  heap are served from one page at \<open>0xC0100000\<close>; the second pointer is
  \<open>0xC0100028\<close>.  Its arena, found by rounding down to the page, is the page itself, whose
  header is intact and has \<^verbatim>\<open>num_pages = 0\<close>.  \<^verbatim>\<open>free\<close> however steps one header back from
  the pointer, reads the stored size 16 of the first block as \<^verbatim>\<open>num_pages\<close>, takes the
  big path and hands 16 pages starting at \<open>0xC0100010\<close> to the page allocator; no free
  list and no arena is touched and \<^verbatim>\<open>block_to_arena\<close> is never called.
\<close>

theorem free_second_block:
  "malloc_init (boot_heap m) = Inr (ready_heap m) \<and>
   malloc i386_layout (ready_heap m) 3222274048 16 =
     Inr (pair_heap m [3222274088], 3222274072) \<and>
   malloc i386_layout (pair_heap m [3222274088]) pg 16 = Inr (pair_heap m [], 3222274088) \<and>
   pg_round_down 3222274088 = 3222274048 \<and>
   load32 (mem (pair_heap m [])) 3222274048 = ARENA_MAGIC \<and>
   load32 (mem (pair_heap m [])) (3222274048 + ofs_num_pages i386_layout) = 0 \<and>
   free i386_layout (pair_heap m []) 3222274088 =
     Inr ((pair_heap m [])\<lparr>pcalls := [Palloc_get 1 3222274048, Palloc_free 3222274064 16]\<rparr>)"
proof -
  have "pg_round_down 3222274088 = 3222274048"
    by (simp add: pg_round_down_def PGSIZE_def)
  moreover have "load32 (mem (pair_heap m [])) 3222274048 = ARENA_MAGIC"
    by (simp add: pair_heap_def pair_mem_loads)
  moreover have "load32 (mem (pair_heap m [])) (3222274048 + ofs_num_pages i386_layout) = 0"
    by (simp add: pair_heap_def pair_mem_loads i386_layout_def)
  ultimately show ?thesis
    by (simp only: malloc_init_boot first_16 second_16 free_second simp_thms)
qed

section \<open>calloc\<close>

text \<open>
  C2, where the code departs from the claim.  The product \<open>65537 * 65537\<close> does not fit
  into 32 bits; it wraps to 131073, which is smaller than neither factor, so the test
  \<^verbatim>\<open>size < a || size < b\<close> lets it pass.  \<^verbatim>\<open>calloc\<close> asks for 33 pages and, when the page
  allocator supplies them, returns a non-null pointer to 131073 zeroed bytes.
\<close>

theorem calloc_overflow_undetected:
  "(4294967296::nat) \<le> 65537 * 65537 \<and>
   calloc i386_layout (ready_heap m) 3222274048 65537 65537 =
     Inr ((ready_heap (memset (store32 (store32 m 3222274048 ARENA_MAGIC) 3222274068 33)
                          3222274072 0 131073))\<lparr>pcalls := [Palloc_get 33 3222274048]\<rparr>,
          3222274072)"
proof -
  have fd: "find_desc (descs (ready_heap m)) 7 131073 0 = Inr 7"
    by (simp add: ready_heap_def mk_desc_def find_desc.simps)
  show ?thesis
    by (simp add: calloc_def wrap32_def malloc_def ready_cnt fd malloc_big_def i386_layout_def
        PGSIZE_def Let_def) (simp add: ready_heap_def)
qed

text \<open>The part of C2 that holds: what \<^verbatim>\<open>calloc\<close> returns non-null is zeroed.\<close>

lemma calloc_zeroed:
  assumes "calloc L h pg a b = Inr (h', p)" "p \<noteq> 0" "p \<le> x" "x < p + wrap32 (a * b)"
  shows "mem h' x = 0"
  using assms
  by (auto simp: calloc_def Let_def bindR_def memset_def split: if_splits sum.splits)

section \<open>realloc when the allocation fails\<close>

lemma nonnull_update:
  "nonnull ds \<Longrightarrow> 0 \<notin> set (free_list d) \<Longrightarrow> nonnull (ds[i := d])"
  using set_update_subset_insert [of ds i d] by (auto simp: nonnull_def list_all_iff)

lemma nonnull_nth: "nonnull ds \<Longrightarrow> i < length ds \<Longrightarrow> 0 \<notin> set (free_list (ds ! i))"
  by (simp add: nonnull_def list_all_length)

lemma nonnull_set_free_list:
  "nonnull ds \<Longrightarrow> 0 \<notin> set xs \<Longrightarrow> nonnull (set_free_list ds i xs)"
  by (simp add: set_free_list_def nonnull_update)

lemma nonnull_push_back:
  "nonnull ds \<Longrightarrow> b \<noteq> 0 \<Longrightarrow> nonnull (list_push_back ds i b)"
proof (cases "i < length ds")
  case True
  assume "nonnull ds" "b \<noteq> 0"
  then show ?thesis using True nonnull_nth [of ds i]
    by (simp add: list_push_back_def nonnull_update)
next
  case False
  assume "nonnull ds"
  then show ?thesis using False by (simp add: list_push_back_def list_update_beyond)
qed

lemma arena_to_block_nonnull: "arena_to_block L m a i bs = Inr b \<Longrightarrow> b \<noteq> 0"
  by (auto simp: arena_to_block_def split: if_splits)

lemma list_pop_front_nonnull:
  "nonnull ds \<Longrightarrow> list_pop_front ds i = Inr (ds', b) \<Longrightarrow> b \<noteq> 0"
  using nonnull_nth [of ds i]
  by (auto simp: list_pop_front_def split: if_splits list.splits)

lemma list_pop_front_keeps:
  "nonnull ds \<Longrightarrow> list_pop_front ds i = Inr (ds', b) \<Longrightarrow> nonnull ds'"
  using nonnull_nth [of ds i]
  by (auto simp: list_pop_front_def split: if_splits list.splits intro!: nonnull_set_free_list)

lemma split_loop_nonnull:
  "nonnull ds \<Longrightarrow> split_loop L ds m cnt a tbs bc idx = Inr (ds', m', bc') \<Longrightarrow> nonnull ds'"
proof (induction L ds m cnt a tbs bc idx rule: split_loop.induct)
  case (1 L ds m cnt a tbs bc idx)
  show ?case
  proof (cases "tbs < block_size (ds ! (cnt - idx))")
    case False
    then show ?thesis using "1.prems"
      by (subst (asm) split_loop.simps) (auto split: if_splits)
  next
    case True
    from "1.prems"(2) True have g: "\<not> (cnt < idx \<or> length ds \<le> cnt - idx)"
      by (subst (asm) split_loop.simps) (auto split: if_splits)
    from "1.prems"(2) True g obtain ds1 b where pop: "list_pop_front ds bc = Inr (ds1, b)"
      by (subst (asm) split_loop.simps) (auto split: if_splits sum.splits)
    from "1.prems"(2) True g pop have g2: "\<not> cnt < idx + 1"
      by (subst (asm) split_loop.simps) (auto split: if_splits)
    define bi where
      "bi = wrap32 (pg_ofs b + 4294967296 - sizeof_arena L) div block_size (ds1 ! (cnt - idx))"
    define cbs where "cbs = block_size (ds1 ! (cnt - (idx + 1)))"
    from "1.prems"(2) True g pop g2 obtain b2 where
      b2: "arena_to_block L m a (wrap32 (wrap32 (2 * bi) + 1)) cbs = Inr b2"
      by (subst (asm) split_loop.simps)
        (auto simp: Let_def bi_def cbs_def split: if_splits sum.splits)
    from "1.prems"(2) True g pop g2 b2 obtain b1 where
      b1: "arena_to_block L (store32 m (b2 + ofs_size L) cbs) a (wrap32 (2 * bi)) cbs = Inr b1"
      by (subst (asm) split_loop.simps)
        (auto simp: Let_def bi_def cbs_def split: if_splits sum.splits)
    from "1.prems"(2) True g pop g2 b2 b1 have g3: "bc \<noteq> 0"
      by (subst (asm) split_loop.simps)
        (auto simp: Let_def bi_def cbs_def split: if_splits)
    have rec: "split_loop L
          (list_push_back (list_push_back ds1 (bc - 1) b1) (bc - 1) b2)
          (store32 (store32 m (b2 + ofs_size L) cbs) (b1 + ofs_size L) cbs)
          cnt a tbs (bc - 1) (idx + 1) = Inr (ds', m', bc')"
      using "1.prems"(2) True g pop g2 b2 b1 g3
      by (subst (asm) split_loop.simps) (simp add: Let_def bi_def cbs_def)
    have nn: "nonnull (list_push_back (list_push_back ds1 (bc - 1) b1) (bc - 1) b2)"
      using list_pop_front_keeps [OF "1.prems"(1) pop]
        arena_to_block_nonnull [OF b1] arena_to_block_nonnull [OF b2]
      by (intro nonnull_push_back)
    show ?thesis
      using "1.IH" [OF g True pop refl g2 bi_def refl refl cbs_def b2 b1 g3 nn] rec
      by (simp add: bi_def cbs_def)
  qed
qed

lemma malloc_split_nonnull:
  assumes "nonnull (descs h)" "malloc_split L h t bc = Inr (h', p)"
  shows "p \<noteq> 0"
proof -
  from assms(2) obtain block_obj rest where fl: "free_list (descs h ! bc) = block_obj # rest"
    by (auto simp: malloc_split_def split: list.splits)
  from assms(2) fl obtain a where
    a: "block_to_arena L (mem h) block_obj (load32 (mem h) (block_obj + ofs_size L)) = Inr a"
    by (auto simp: malloc_split_def bindR_def split: sum.splits)
  from assms(2) fl a obtain idx where
    idx: "find_idx (descs h) (desc_cnt h) (block_size (descs h ! bc)) 1 = Inr idx"
    by (auto simp: malloc_split_def bindR_def split: sum.splits)
  show ?thesis
  proof (cases "bc = t")
    case True
    then show ?thesis using assms fl a idx list_pop_front_nonnull [of "descs h" bc]
      by (auto simp: malloc_split_def bindR_def split: sum.splits)
  next
    case False
    then obtain ds m bc' where
      sl: "split_loop L (descs h) (mem h) (desc_cnt h) a (block_size (descs h ! t)) bc idx
             = Inr (ds, m, bc')"
      using assms(2) fl a idx by (auto simp: malloc_split_def bindR_def split: sum.splits)
    have "nonnull ds" using split_loop_nonnull [OF assms(1) sl] .
    then show ?thesis using assms(2) fl a idx sl False list_pop_front_nonnull [of ds bc']
      by (auto simp: malloc_split_def bindR_def split: sum.splits)
  qed
qed

lemma malloc_null:
  assumes "nonnull (descs h)" "sz \<noteq> 0" "malloc L h pg sz = Inr (h', 0)"
  shows "\<exists>n. h' = h\<lparr>pcalls := pcalls h @ [Palloc_get n 0]\<rparr>"
proof -
  from assms(2,3) obtain t where t: "find_desc (descs h) (desc_cnt h) sz 0 = Inr t"
    by (auto simp: malloc_def bindR_def split: sum.splits)
  show ?thesis
  proof (cases "t = desc_cnt h")
    case True
    then have "malloc_big L h pg sz = Inr (h', 0)" using assms(2,3) t by (simp add: malloc_def)
    then show ?thesis by (auto simp: malloc_big_def Let_def split: if_splits)
  next
    case False
    then obtain bc where bc: "skip_empty (descs h) (desc_cnt h) t = Inr bc"
      using assms(2,3) t by (auto simp: malloc_def bindR_def split: sum.splits)
    show ?thesis
    proof (cases "bc = desc_cnt h")
      case True
      then have "malloc_fresh L h pg t = Inr (h', 0)"
        using assms(2,3) t bc False by (simp add: malloc_def)
      then show ?thesis
        by (auto simp: malloc_fresh_def Let_def bindR_def
            split: if_splits sum.splits prod.splits dest: arena_to_block_nonnull)
    next
      case nf: False
      then have "malloc_split L h t bc = Inr (h', 0)"
        using assms(2,3) t bc False by (simp add: malloc_def)
      then show ?thesis using malloc_split_nonnull [OF assms(1)] by blast
    qed
  qed
qed

text \<open>
  C9.  Let no free list hold the null pointer, let the old block be non-null and the new
  size positive.  If the \<^verbatim>\<open>malloc\<close> inside \<^verbatim>\<open>realloc\<close> returns null, then \<^verbatim>\<open>realloc\<close> returns
  null in the state that \<^verbatim>\<open>malloc\<close> left: every byte of memory, every free list and the
  arena list are as before the call, and the only call to the page allocator is the
  request that failed, so the old block is neither freed nor changed.
\<close>

theorem realloc_failure:
  assumes "nonnull (descs h)" "old_block \<noteq> 0" "new_size \<noteq> 0"
    and "malloc L h pg new_size = Inr (h1, 0)"
  shows "realloc L h pg old_block new_size = Inr (h1, 0) \<and> mem h1 = mem h \<and>
         descs h1 = descs h \<and> arena_list h1 = arena_list h \<and>
         (\<exists>n. pcalls h1 = pcalls h @ [Palloc_get n 0])"
proof -
  from malloc_null [OF assms(1,3,4)] obtain n where
    "h1 = h\<lparr>pcalls := pcalls h @ [Palloc_get n 0]\<rparr>" by blast
  then show ?thesis using assms(3,4) by (simp add: realloc_def)
qed

theorem realloc_failure_witness:
  "nonnull (descs (ready_heap (\<lambda>_. 0))) \<and>
   malloc i386_layout (ready_heap (\<lambda>_. 0)) 0 40 =
     Inr ((ready_heap (\<lambda>_. 0))\<lparr>pcalls := [Palloc_get 1 0]\<rparr>, 0) \<and>
   realloc i386_layout (ready_heap (\<lambda>_. 0)) 0 3222274072 40 =
     Inr ((ready_heap (\<lambda>_. 0))\<lparr>pcalls := [Palloc_get 1 0]\<rparr>, 0)"
proof -
  have n: "nonnull (descs (ready_heap (\<lambda>_. 0)))"
    by (simp add: nonnull_def ready_heap_def mk_desc_def)
  have m: "malloc i386_layout (ready_heap (\<lambda>_. 0)) 0 40 =
     Inr ((ready_heap (\<lambda>_. 0))\<lparr>pcalls := [Palloc_get 1 0]\<rparr>, 0)"
    by (simp add: malloc_def ready_cnt find_desc_ready skip_empty_ready malloc_fresh_def)
      (simp add: ready_heap_def)
  show ?thesis
    using realloc_failure [OF n _ _ m, of 3222274072] n m by simp
qed

section \<open>The free lists never hold the null pointer\<close>

text \<open>
  The hypothesis of the theorem on \<^verbatim>\<open>realloc\<close> is an invariant of the allocator: it holds
  after \<^verbatim>\<open>malloc_init\<close> and every operation that returns preserves it, whatever the page
  allocator answers and whatever is written to memory in between.
\<close>

lemma nonnull_ready: "nonnull (descs (ready_heap m))"
  by (simp add: nonnull_def ready_heap_def mk_desc_def)

lemma fresh_split_nonnull:
  "nonnull ds \<Longrightarrow> fresh_split L ds m cnt a tbs j = Inr (ds', m', j') \<Longrightarrow> nonnull ds'"
proof (induction L ds m cnt a tbs j rule: fresh_split.induct)
  case (1 L ds m cnt a tbs j)
  show ?case
  proof (cases "tbs < block_size (ds ! (cnt - j))")
    case False
    then show ?thesis using "1.prems"
      by (subst (asm) fresh_split.simps) (auto split: if_splits)
  next
    case True
    from "1.prems"(2) True have g: "\<not> (cnt < j \<or> length ds \<le> cnt - j)"
      by (subst (asm) fresh_split.simps) (auto split: if_splits)
    from "1.prems"(2) True g obtain tmp where
      tmp: "arena_to_block L m a 1 (block_size (ds ! (cnt - j))) = Inr tmp"
      by (subst (asm) fresh_split.simps) (auto split: if_splits sum.splits)
    have rec: "fresh_split L (list_push_back ds (cnt - j) tmp)
        (store32 m (tmp + ofs_size L) (block_size (ds ! (cnt - j)))) cnt a tbs (j + 1)
          = Inr (ds', m', j')"
      using "1.prems"(2) True g tmp by (subst (asm) fresh_split.simps) simp
    have nn: "nonnull (list_push_back ds (cnt - j) tmp)"
      using "1.prems"(1) arena_to_block_nonnull [OF tmp] by (rule nonnull_push_back)
    show ?thesis using "1.IH" [OF g True tmp nn] rec by simp
  qed
qed

lemma coalesce_nonnull:
  "nonnull ds \<Longrightarrow> b \<noteq> 0 \<Longrightarrow> coalesce L ds m cnt a b i = Inr (ds', m', i') \<Longrightarrow> nonnull ds'"
proof (induction L ds m cnt a b i rule: coalesce.induct)
  case (1 L ds m cnt a b i)
  let ?sz = "load32 m (b + ofs_size L)"
  let ?ai = "wrap32 (pg_ofs b + 4294967296 - sizeof_arena L) div ?sz"
  let ?bi = "if even ?ai then ?ai + 1 else ?ai - 1"
  show ?case
  proof (cases "i < cnt")
    case False
    then show ?thesis using "1.prems"
      by (subst (asm) coalesce.simps) (auto split: if_splits)
  next
    case True
    from "1.prems"(3) True have g: "?sz \<noteq> 0" "\<not> length ds \<le> i"
      by (subst (asm) coalesce.simps, auto simp: Let_def split: if_splits)+
    from "1.prems"(3) True g obtain bb where
      bb: "arena_to_block L m a ?bi (block_size (ds ! i)) = Inr bb"
      by (subst (asm) coalesce.simps) (auto simp: Let_def split: if_splits sum.splits)
    have rm: "nonnull (set_free_list ds i (remove1 bb (free_list (ds ! i))))"
      using "1.prems"(1) g nonnull_nth [of ds i] set_remove1_subset [of bb "free_list (ds ! i)"]
      by (intro nonnull_set_free_list) auto
    show ?thesis
    proof (cases "bb \<in> set (free_list (ds ! i))")
      case False
      then have "ds' = list_push_back ds i b"
        using "1.prems"(3) True g bb
        by (subst (asm) coalesce.simps) (auto simp: Let_def)
      then show ?thesis using "1.prems"(1,2) by (simp add: nonnull_push_back)
    next
      case found: True
      show ?thesis
      proof (cases "odd ?ai")
        case True
        have rec: "coalesce L (set_free_list ds i (remove1 bb (free_list (ds ! i))))
            (store32 m (bb + ofs_size L) (wrap32 (load32 m (bb + ofs_size L) * 2)))
            cnt a bb (i + 1) = Inr (ds', m', i')"
          using "1.prems"(3) \<open>i < cnt\<close> g bb found True
          by (subst (asm) coalesce.simps) (simp add: Let_def)
        show ?thesis
          using "1.IH"(1) [OF \<open>i < cnt\<close> refl g(1) g(2) refl refl bb found True rm
              arena_to_block_nonnull [OF bb] rec] .
      next
        case False
        have rec: "coalesce L (set_free_list ds i (remove1 bb (free_list (ds ! i))))
            (store32 m (b + ofs_size L) (wrap32 (?sz * 2)))
            cnt a b (i + 1) = Inr (ds', m', i')"
          using "1.prems"(3) \<open>i < cnt\<close> g bb found False
          by (subst (asm) coalesce.simps) (simp add: Let_def)
        show ?thesis
          using "1.IH"(2) [OF \<open>i < cnt\<close> refl g(1) g(2) refl refl bb found False rm
              "1.prems"(2) rec] .
      qed
    qed
  qed
qed

lemma malloc_nonnull:
  assumes "nonnull (descs h)" "malloc L h pg sz = Inr (h', p)"
  shows "nonnull (descs h')"
proof (cases "sz = 0")
  case True
  then show ?thesis using assms by (simp add: malloc_def)
next
  case False
  then obtain t where t: "find_desc (descs h) (desc_cnt h) sz 0 = Inr t"
    using assms(2) by (auto simp: malloc_def bindR_def split: sum.splits)
  show ?thesis
  proof (cases "t = desc_cnt h")
    case True
    then have "malloc_big L h pg sz = Inr (h', p)" using assms(2) False t by (simp add: malloc_def)
    then show ?thesis using assms(1) by (auto simp: malloc_big_def Let_def split: if_splits)
  next
    case nb: False
    then obtain bc where bc: "skip_empty (descs h) (desc_cnt h) t = Inr bc"
      using assms(2) False t by (auto simp: malloc_def bindR_def split: sum.splits)
    show ?thesis
    proof (cases "bc = desc_cnt h")
      case True
      then have mf: "malloc_fresh L h pg t = Inr (h', p)"
        using assms(2) False t bc nb by (simp add: malloc_def)
      show ?thesis
      proof (cases "pg = 0")
        case True
        then show ?thesis using mf assms(1) by (auto simp: malloc_fresh_def Let_def)
      next
        case pgn: False
        from mf pgn obtain ds m j where
          fs: "fresh_split L (descs h)
                 (store32 (store32 (mem h) pg ARENA_MAGIC) (pg + ofs_num_pages L) 0)
                 (desc_cnt h) pg (block_size (descs h ! t)) 1 = Inr (ds, m, j)"
          by (auto simp: malloc_fresh_def Let_def bindR_def split: sum.splits)
        from mf pgn fs obtain b1 where
          b1: "arena_to_block L m pg 1 (block_size (ds ! (desc_cnt h - j))) = Inr b1"
          by (auto simp: malloc_fresh_def Let_def bindR_def split: sum.splits)
        have "descs h' = list_push_back ds t b1"
          using mf pgn fs b1
          by (auto simp: malloc_fresh_def Let_def bindR_def split: sum.splits)
        then show ?thesis
          using fresh_split_nonnull [OF assms(1) fs] arena_to_block_nonnull [OF b1]
          by (simp add: nonnull_push_back)
      qed
    next
      case ns: False
      then have ms: "malloc_split L h t bc = Inr (h', p)"
        using assms(2) False t bc nb by (simp add: malloc_def)
      from ms obtain block_obj rest where fl: "free_list (descs h ! bc) = block_obj # rest"
        by (auto simp: malloc_split_def split: list.splits)
      from ms fl obtain a where
        a: "block_to_arena L (mem h) block_obj (load32 (mem h) (block_obj + ofs_size L)) = Inr a"
        by (auto simp: malloc_split_def bindR_def split: sum.splits)
      from ms fl a obtain idx where
        idx: "find_idx (descs h) (desc_cnt h) (block_size (descs h ! bc)) 1 = Inr idx"
        by (auto simp: malloc_split_def bindR_def split: sum.splits)
      show ?thesis
      proof (cases "bc = t")
        case True
        then show ?thesis using ms fl a idx assms(1) list_pop_front_keeps [of "descs h" bc]
          by (auto simp: malloc_split_def bindR_def split: sum.splits)
      next
        case False
        then obtain ds m bc' where
          sl: "split_loop L (descs h) (mem h) (desc_cnt h) a (block_size (descs h ! t)) bc idx
                 = Inr (ds, m, bc')"
          using ms fl a idx by (auto simp: malloc_split_def bindR_def split: sum.splits)
        have "nonnull ds" using split_loop_nonnull [OF assms(1) sl] .
        then show ?thesis using ms fl a idx sl False list_pop_front_keeps [of ds bc']
          by (auto simp: malloc_split_def bindR_def split: sum.splits)
      qed
    qed
  qed
qed

lemma free_nonnull:
  assumes "nonnull (descs h)" "free L h p = Inr h'"
  shows "nonnull (descs h')"
proof (cases "p = 0")
  case True
  then show ?thesis using assms by (simp add: free_def)
next
  case False
  show ?thesis
  proof (cases "0 < load32 (mem h) (wrap32 (p + 4294967296 - sizeof_arena L) + ofs_num_pages L)")
    case True
    then show ?thesis using assms False by (auto simp: free_def Let_def)
  next
    case small: False
    from assms(2) False small obtain a where
      a: "block_to_arena L (mem h) p (load32 (mem h) (p + ofs_size L)) = Inr a"
      by (auto simp: free_def Let_def bindR_def split: sum.splits)
    from assms(2) False small a obtain i where
      i: "free_find (descs h) (load32 (mem h) (p + ofs_size L)) 0 = Inr i"
      by (auto simp: free_def Let_def bindR_def split: sum.splits)
    from assms(2) False small a i obtain ds m i' where
      co: "coalesce L (descs h) (mem h) (desc_cnt h) a p i = Inr (ds, m, i')"
      by (auto simp: free_def Let_def bindR_def split: sum.splits)
    have "descs h' = ds"
      using assms(2) False small a i co by (auto simp: free_def Let_def split: if_splits)
    then show ?thesis using coalesce_nonnull [OF assms(1) False co] by simp
  qed
qed

lemma calloc_nonnull:
  assumes "nonnull (descs h)" "calloc L h pg a b = Inr (h', p)"
  shows "nonnull (descs h')"
  using assms malloc_nonnull [of h L pg "wrap32 (a * b)"]
  by (auto simp: calloc_def Let_def bindR_def split: if_splits sum.splits)

lemma realloc_nonnull:
  assumes "nonnull (descs h)" "realloc L h pg old_block new_size = Inr (h', p)"
  shows "nonnull (descs h')"
proof (cases "new_size = 0")
  case True
  then show ?thesis using assms free_nonnull [of h L old_block]
    by (auto simp: realloc_def bindR_def split: sum.splits)
next
  case False
  then obtain h1 nb where m: "malloc L h pg new_size = Inr (h1, nb)"
    using assms(2) by (auto simp: realloc_def bindR_def split: sum.splits)
  have n1: "nonnull (descs h1)" using malloc_nonnull [OF assms(1) m] .
  show ?thesis
  proof (cases "old_block \<noteq> 0 \<and> nb \<noteq> 0")
    case True
    let ?h2 = "h1\<lparr>mem := memcpy (mem h1) nb old_block
        (if new_size < load32 (mem h1) (old_block + ofs_size L) then new_size
         else load32 (mem h1) (old_block + ofs_size L))\<rparr>"
    have "free L ?h2 old_block = Inr h'"
      using assms(2) False m True
      by (auto simp: realloc_def Let_def bindR_def split: sum.splits)
    moreover have "nonnull (descs ?h2)" using n1 by simp
    ultimately show ?thesis using free_nonnull by blast
  next
    case nf: False
    then show ?thesis using assms(2) False m n1 by (auto simp: realloc_def)
  qed
qed

section \<open>Signals: helper lemmas\<close>

lemma validated_tid_Some:
  "validated_tid k n = Some ta \<Longrightarrow> \<exists>t. tcb k ta = Some t \<and> tid t = n"
  by (auto simp: validated_tid_def find_Some_iff split: option.splits)

lemma validated_tid_upd:
  assumes "tcb k a = Some t" "tid t' = tid t"
  shows "validated_tid (k\<lparr>tcb := (tcb k)(a \<mapsto> t')\<rparr>) n = validated_tid k n"
proof -
  have "(\<lambda>x. case ((tcb k)(a \<mapsto> t')) x of None \<Rightarrow> False | Some u \<Rightarrow> tid u = n)
      = (\<lambda>x. case tcb k x of None \<Rightarrow> False | Some u \<Rightarrow> tid u = n)"
    using assms by (auto simp: fun_eq_iff)
  then show ?thesis by (simp add: validated_tid_def)
qed

lemma parent_walk_first:
  "ts a = Some th \<Longrightarrow> ts (parent_thread th) = Some par \<Longrightarrow> tid par = me \<Longrightarrow>
   parent_walk ts me a = Some (Inr True)"
  by (subst parent_walk.simps) simp

lemma parent_walk_root:
  "ts a = Some th \<Longrightarrow> ts (parent_thread th) = Some par \<Longrightarrow> tid par \<noteq> me \<Longrightarrow>
   tid par = 1 \<Longrightarrow> parent_walk ts me a = Some (Inr False)"
  by (subst parent_walk.simps) auto

lemma sig_distinct:
  "SIG_KILL \<noteq> SIG_UBLOCK" "SIG_KILL \<noteq> SIG_USR" "SIG_USR \<noteq> SIG_UBLOCK"
  "SIG_USR \<noteq> SIG_KILL"
  by (simp_all add: SIG_KILL_def SIG_UBLOCK_def SIG_USR_def)

lemma demo_simps:
  "tcb (demo_kernel c) 100 = Some root_thread" "tcb (demo_kernel c) 200 = Some child_thread"
  "cur (demo_kernel c) = c" "all_list (demo_kernel c) = [100, 200]"
  "sigsets (demo_kernel c) 300 = 8"
  by (simp_all add: demo_kernel_def)

lemma demo_tids:
  "validated_tid (demo_kernel c) 1 = Some 100" "validated_tid (demo_kernel c) 2 = Some 200"
  by (simp_all add: validated_tid_def demo_kernel_def root_thread_def child_thread_def)

lemma map_signum_overwrite [simp]: "map signum (overwrite_sender sn who ps) = map signum ps"
  by (induction ps) auto

lemma overwrite_sender_absent:
  "\<not> list_ex (\<lambda>s. signum s = sn) ps \<Longrightarrow>
   overwrite_sender sn who (ps @ [\<lparr>signum = sn, sender = who\<rparr>])
     = ps @ [\<lparr>signum = sn, sender = who\<rparr>]"
  by (induction ps) auto

lemma count_sig_map: "count_sig sn ps = length (filter (\<lambda>x. x = sn) (map signum ps))"
  by (simp add: count_sig_def filter_map comp_def)

lemma count_sig_overwrite [simp]:
  "count_sig sn' (overwrite_sender sn who ps) = count_sig sn' ps"
  by (simp add: count_sig_map)

lemma count_sig_zero: "\<not> list_ex (\<lambda>s. signum s = sn) ps \<Longrightarrow> count_sig sn ps = 0"
  by (induction ps) (auto simp: count_sig_def)

lemma count_sig_append [simp]: "count_sig sn (ps @ qs) = count_sig sn ps + count_sig sn qs"
  by (simp add: count_sig_def)

section \<open>Invalid signal numbers\<close>

text \<open>
  C7, as the code has it.  \<^verbatim>\<open>kill\<close> returns -1 for every signal number other than
  \<^verbatim>\<open>SIG_UBLOCK\<close>, \<^verbatim>\<open>SIG_USR\<close> and \<^verbatim>\<open>SIG_KILL\<close>, and \<^verbatim>\<open>sigaddset\<close> and \<^verbatim>\<open>sigdelset\<close> return -1
  for every number outside 0..4; all three leave the state as it was.  \<^verbatim>\<open>signal_\<close> checks
  nothing: for a number outside 0..4 it changes nothing and returns 0.
\<close>

theorem invalid_signum:
  "(sn \<noteq> SIG_UBLOCK \<and> sn \<noteq> SIG_USR \<and> sn \<noteq> SIG_KILL \<longrightarrow>
      kill k mem_ok n sn = Some (Inr (k, - 1))) \<and>
   (sn < 0 \<or> 4 < sn \<longrightarrow>
      sigaddset k p sn = Inr (k, - 1) \<and> sigdelset k p sn = Inr (k, - 1)) \<and>
   (sn < 0 \<or> 4 < sn \<longrightarrow> tcb k (cur k) \<noteq> None \<longrightarrow> signal_' k sn handler = Inr (k, 0))"
proof (intro conjI impI)
  assume a: "sn \<noteq> SIG_UBLOCK \<and> sn \<noteq> SIG_USR \<and> sn \<noteq> SIG_KILL"
  show "kill k mem_ok n sn = Some (Inr (k, - 1))"
  proof (cases "validated_tid k n")
    case None
    then show ?thesis by (simp add: kill_def)
  next
    case (Some ta)
    then obtain t where t: "tcb k ta = Some t" using validated_tid_Some by blast
    show ?thesis using Some t a by (simp add: kill_def)
  qed
next
  assume "sn < 0 \<or> 4 < sn"
  then show "sigaddset k p sn = Inr (k, - 1)" by (auto simp: sigaddset_def)
next
  assume "sn < 0 \<or> 4 < sn"
  then show "sigdelset k p sn = Inr (k, - 1)" by (auto simp: sigdelset_def)
next
  assume "sn < 0 \<or> 4 < sn" "tcb k (cur k) \<noteq> None"
  then show "signal_' k sn handler = Inr (k, 0)"
    by (auto simp: signal_'_def thread_current_def)
qed

theorem invalid_signum_witness:
  "kill (demo_kernel 200) True 2 7 = Some (Inr (demo_kernel 200, - 1)) \<and>
   sigaddset (demo_kernel 200) 300 7 = Inr (demo_kernel 200, - 1) \<and>
   sigdelset (demo_kernel 200) 300 (- 1) = Inr (demo_kernel 200, - 1) \<and>
   signal_' (demo_kernel 200) 7 SIG_IGN = Inr (demo_kernel 200, 0)"
  using invalid_signum [of 7 "demo_kernel 200" True 2 300 SIG_IGN]
    invalid_signum [of "- 1" "demo_kernel 200" True 2 300 SIG_IGN]
  by (simp add: demo_simps SIG_UBLOCK_def SIG_USR_def SIG_KILL_def)

text \<open>
  C7 as stated fails for \<^verbatim>\<open>signal_\<close>: called with the signal number 7 it returns 0, not -1.
\<close>

theorem signal_invalid_counterexample:
  "signal_' (demo_kernel 200) 7 SIG_IGN = Inr (demo_kernel 200, 0) \<and>
   signal_' (demo_kernel 200) 7 SIG_IGN \<noteq> Inr (demo_kernel 200, - 1)"
  by (simp add: signal_'_def thread_current_def demo_simps SIG_IGN_def SIG_DFL_def)

section \<open>sigprocmask\<close>

text \<open>
  C8, as the code has it.  Let the running thread have the mask \<open>m\<close>, let \<^verbatim>\<open>set\<close> be
  non-null and let \<^verbatim>\<open>oldset\<close> not point to the same object as \<^verbatim>\<open>set\<close>.  Then
  \<^verbatim>\<open>sigprocmask (SIG_BLOCK, set, oldset)\<close> returns 0, stores \<open>m\<close> in \<^verbatim>\<open>*oldset\<close> when
  \<^verbatim>\<open>oldset\<close> is non-null, and sets the mask to the union of \<open>m\<close> and \<^verbatim>\<open>*set\<close>, so that reading
  the mask afterwards yields the union of \<^verbatim>\<open>*oldset\<close> and the set passed in.
\<close>

theorem sigprocmask_block:
  assumes "tcb k (cur k) = Some t" "set_p \<noteq> 0" "oldset \<noteq> set_p"
  shows "\<exists>k'. sigprocmask k SIG_BLOCK set_p oldset = Inr (k', 0) \<and>
           map_option sigmask (tcb k' (cur k')) = Some (sigmask t OR sigsets k set_p) \<and>
           (if oldset \<noteq> 0
            then sigsets k' oldset = sigmask t \<and>
                 map_option sigmask (tcb k' (cur k'))
                   = Some (sigsets k' oldset OR sigsets k set_p)
            else sigsets k' = sigsets k)"
  using assms by (simp add: sigprocmask_def thread_current_def set_sigmask_def Let_def)

theorem sigprocmask_block_witness:
  "tcb (demo_kernel 200) (cur (demo_kernel 200)) = Some child_thread \<and>
   (\<exists>k'. sigprocmask (demo_kernel 200) SIG_BLOCK 300 400 = Inr (k', 0) \<and>
      map_option sigmask (tcb k' (cur k')) = Some 9 \<and> sigsets k' 400 = 1)"
proof -
  have a: "tcb (demo_kernel 200) (cur (demo_kernel 200)) = Some child_thread"
    by (simp add: demo_simps)
  have b: "(300::nat) \<noteq> 0" "(400::nat) \<noteq> 300" by simp_all
  show ?thesis
    using sigprocmask_block [OF a b] a
    by (auto simp: demo_simps child_thread_def)
qed

text \<open>
  C8 as stated fails when \<^verbatim>\<open>oldset\<close> and \<^verbatim>\<open>set\<close> are the same object: the thread's mask is
  1, the object holds 8; after the call the mask is still 1 (and the object holds 1), not
  the union 9.
\<close>

theorem sigprocmask_alias_counterexample:
  "map_option sigmask (tcb (demo_kernel 200) (cur (demo_kernel 200))) = Some 1 \<and>
   sigsets (demo_kernel 200) 300 = 8 \<and>
   map_sum id (\<lambda>(k', r). (map_option sigmask (tcb k' (cur k')), sigsets k' 300, r))
     (sigprocmask (demo_kernel 200) SIG_BLOCK 300 300) = Inr (Some 1, 1, 0) \<and>
   (1::sigset_t) OR 8 = 9"
  by (simp add: sigprocmask_def thread_current_def set_sigmask_def demo_kernel_def
      child_thread_def Let_def)

section \<open>kill with SIG\_KILL on the caller itself\<close>

text \<open>
  C3, as the code has it.  The loop compares the caller's TID with the TID of the target's
  \<^emph>\<open>parent\<close>, not with the target's own.  So \<^verbatim>\<open>kill (self_tid, SIG_KILL)\<close> made by a thread
  on itself passes the check on the first iteration when the thread's parent carries the
  thread's own TID (the root thread, whose parent has TID 1): with no \<^verbatim>\<open>SIG_KILL\<close> pending
  it returns 0 and enqueues one record, and a second identical call returns 0 and leaves
  that one record as it is.  When the parent's TID is 1 and differs from the caller's, the
  call returns -1 and changes nothing.
\<close>

theorem self_kill:
  assumes me: "tcb k (cur k) = Some me" and v: "validated_tid k (tid me) = Some (cur k)"
    and par: "tcb k (parent_thread me) = Some par"
  shows "(tid par = tid me \<and> \<not> list_ex (\<lambda>s. signum s = SIG_KILL) (pending_signals me) \<longrightarrow>
            (let k1 = with_pending k (cur k) me
                        (pending_signals me @ [\<lparr>signum = SIG_KILL, sender = tid me\<rparr>])
             in kill k True (tid me) SIG_KILL = Some (Inr (k1, 0)) \<and>
                kill k1 mem_ok (tid me) SIG_KILL = Some (Inr (k1, 0)))) \<and>
         (tid par \<noteq> tid me \<and> tid par = 1 \<longrightarrow>
            kill k mem_ok (tid me) SIG_KILL = Some (Inr (k, - 1)))"
proof (intro conjI impI)
  assume a: "tid par = tid me \<and> \<not> list_ex (\<lambda>s. signum s = SIG_KILL) (pending_signals me)"
  define rec where "rec = \<lparr>signum = SIG_KILL, sender = tid me\<rparr>"
  define me1 where "me1 = me\<lparr>pending_signals := pending_signals me @ [rec]\<rparr>"
  define k1 where "k1 = k\<lparr>tcb := (tcb k)(cur k \<mapsto> me1)\<rparr>"
  have w: "parent_walk (tcb k) (tid me) (cur k) = Some (Inr True)"
    using a by (simp add: parent_walk_first [OF me par])
  have first: "kill k True (tid me) SIG_KILL = Some (Inr (k1, 0))"
    using me v w a sig_distinct
    by (simp add: kill_def thread_current_def post_signal_def k1_def me1_def rec_def)
  have v1: "validated_tid k1 (tid me) = Some (cur k)"
    unfolding k1_def using validated_tid_upd [OF me, of me1] v by (simp add: me1_def)
  have me1: "tcb k1 (cur k1) = Some me1" by (simp add: k1_def)
  have "\<exists>p. tcb k1 (parent_thread me1) = Some p \<and> tid p = tid me"
    using par a by (auto simp: k1_def me1_def)
  then obtain p where p: "tcb k1 (parent_thread me1) = Some p" "tid p = tid me" by blast
  have w1: "parent_walk (tcb k1) (tid me1) (cur k) = Some (Inr True)"
    using parent_walk_first [of "tcb k1" "cur k" me1 p "tid me1"] me1 p
    by (simp add: k1_def me1_def)
  have ex1: "list_ex (\<lambda>s. signum s = SIG_KILL) (pending_signals me1)"
    by (simp add: me1_def rec_def)
  have ow: "overwrite_sender SIG_KILL (tid me1) (pending_signals me1) = pending_signals me1"
    using a overwrite_sender_absent [of SIG_KILL "pending_signals me" "tid me"]
    by (simp add: me1_def rec_def)
  have cur1: "cur k1 = cur k" by (simp add: k1_def)
  have tc1: "thread_current k1 = Inr me1" using me1 by (simp add: thread_current_def)
  have k1k1: "k1\<lparr>tcb := (tcb k1)(cur k \<mapsto> me1)\<rparr> = k1" by (simp add: k1_def)
  have ps: "post_signal k1 mem_ok (cur k) me1 SIG_KILL = Inr (k1, 0)"
    using tc1 ex1 ow k1k1 by (simp add: post_signal_def me1_def)
  have second: "kill k1 mem_ok (tid me) SIG_KILL = Some (Inr (k1, 0))"
    using v1 me1 cur1 tc1 w1 ps sig_distinct by (simp add: kill_def)
  show "let k1 = with_pending k (cur k) me
                        (pending_signals me @ [\<lparr>signum = SIG_KILL, sender = tid me\<rparr>])
             in kill k True (tid me) SIG_KILL = Some (Inr (k1, 0)) \<and>
                kill k1 mem_ok (tid me) SIG_KILL = Some (Inr (k1, 0))"
    using first second by (simp add: Let_def with_pending_def k1_def me1_def rec_def)
next
  assume a: "tid par \<noteq> tid me \<and> tid par = 1"
  have w: "parent_walk (tcb k) (tid me) (cur k) = Some (Inr False)"
    using a by (simp add: parent_walk_root [OF me par])
  show "kill k mem_ok (tid me) SIG_KILL = Some (Inr (k, - 1))"
    using me v w sig_distinct by (simp add: kill_def thread_current_def)
qed

theorem self_kill_witness:
  "kill (demo_kernel 100) True 1 SIG_KILL =
     Some (Inr (with_pending (demo_kernel 100) 100 root_thread
                  [\<lparr>signum = SIG_KILL, sender = 1\<rparr>], 0)) \<and>
   kill (with_pending (demo_kernel 100) 100 root_thread [\<lparr>signum = SIG_KILL, sender = 1\<rparr>])
       False 1 SIG_KILL =
     Some (Inr (with_pending (demo_kernel 100) 100 root_thread
                  [\<lparr>signum = SIG_KILL, sender = 1\<rparr>], 0)) \<and>
   kill (demo_kernel 200) True 2 SIG_KILL = Some (Inr (demo_kernel 200, - 1))"
proof -
  have r: "tcb (demo_kernel 100) (cur (demo_kernel 100)) = Some root_thread"
    "validated_tid (demo_kernel 100) (tid root_thread) = Some (cur (demo_kernel 100))"
    "tcb (demo_kernel 100) (parent_thread root_thread) = Some root_thread"
    by (simp_all add: demo_simps demo_tids root_thread_def)
  have c: "tcb (demo_kernel 200) (cur (demo_kernel 200)) = Some child_thread"
    "validated_tid (demo_kernel 200) (tid child_thread) = Some (cur (demo_kernel 200))"
    "tcb (demo_kernel 200) (parent_thread child_thread) = Some root_thread"
    by (simp_all add: demo_simps demo_tids child_thread_def)
  show ?thesis
    using self_kill [OF r, of False] self_kill [OF c, of True]
    by (simp add: Let_def demo_simps root_thread_def child_thread_def)
qed

text \<open>
  C3 as stated fails: thread 2, whose parent is the root thread, sends \<^verbatim>\<open>SIG_KILL\<close> to
  itself; the call returns -1 and no record is enqueued.
\<close>

theorem self_kill_counterexample:
  "cur (demo_kernel 200) = 200 \<and> validated_tid (demo_kernel 200) 2 = Some 200 \<and>
   kill (demo_kernel 200) True 2 SIG_KILL = Some (Inr (demo_kernel 200, - 1)) \<and>
   map_option pending_signals (tcb (demo_kernel 200) 200) = Some []"
proof -
  have w: "parent_walk (tcb (demo_kernel 200)) 2 200 = Some (Inr False)"
    by (subst parent_walk.simps) (simp add: demo_simps child_thread_def root_thread_def)
  show ?thesis
    using w by (simp add: kill_def demo_tids demo_simps thread_current_def sig_distinct
        child_thread_def)
qed

section \<open>At most one pending record per signal number\<close>

lemma post_signal_at_most_one:
  assumes "post_signal k ok ta t sn = Inr (k', r)" "tcb k ta = Some t" "at_most_one k a"
  shows "at_most_one k' a"
proof -
  obtain me where me: "tcb k (cur k) = Some me"
    using assms(1) by (auto simp: post_signal_def thread_current_def split: option.splits)
  show ?thesis
  proof (cases "list_ex (\<lambda>s. signum s = sn) (pending_signals t)")
    case True
    then show ?thesis using assms me
      by (auto simp: post_signal_def thread_current_def at_most_one_def
          split: option.splits if_splits)
  next
    case False
    then have z: "count_sig sn (pending_signals t) = 0" by (rule count_sig_zero)
    have c: "count_sig sn' [\<lparr>signum = sn, sender = w\<rparr>] = (if sn = sn' then 1 else 0)"
      for sn' w
      by (simp add: count_sig_def)
    show ?thesis using assms me False z
      by (auto simp: post_signal_def thread_current_def at_most_one_def c
          split: option.splits if_splits)
  qed
qed

lemma kill_at_most_one:
  assumes "kill k ok n sn = Some (Inr (k', r))" "at_most_one k a"
  shows "at_most_one k' a"
proof (cases "validated_tid k n")
  case None
  then show ?thesis using assms by (simp add: kill_def)
next
  case (Some ta)
  then obtain t where t: "tcb k ta = Some t" using validated_tid_Some by blast
  have ub: "at_most_one (k\<lparr>unblock_list := u\<rparr>) a" for u
    using assms(2) by (simp add: at_most_one_def)
  show ?thesis using assms Some t ub post_signal_at_most_one [of k ok ta t sn k' r a]
    by (auto simp: kill_def split: if_splits option.splits sum.splits)
qed

lemma run_kills_at_most_one:
  "run_kills k cs = Some (Inr k') \<Longrightarrow> at_most_one k a \<Longrightarrow> at_most_one k' a"
proof (induction cs arbitrary: k)
  case Nil
  then show ?case by simp
next
  case (Cons c cs)
  from Cons.prems(1) obtain k1 r where
    k1: "kill (k\<lparr>cur := caller c\<rparr>) (alloc_ok c) (target c) (sig_no c) = Some (Inr (k1, r))"
    and rest: "run_kills k1 cs = Some (Inr k')"
    by (auto split: option.splits sum.splits)
  have "at_most_one (k\<lparr>cur := caller c\<rparr>) a"
    using Cons.prems(2) by (simp add: at_most_one_def)
  then have "at_most_one k1 a" using k1 kill_at_most_one by blast
  then show ?case using Cons.IH rest by blast
qed

lemma overwrite_sender_split:
  "list_all (\<lambda>s. signum s \<noteq> sn) pre \<Longrightarrow> signum x = sn \<Longrightarrow>
   overwrite_sender sn who (pre @ x # post) = pre @ x\<lparr>sender := who\<rparr> # post"
  by (induction pre) auto

lemma list_all_not_ex:
  "list_all (\<lambda>s. signum s \<noteq> sn) ps \<Longrightarrow> \<not> list_ex (\<lambda>s. signum s = sn) ps"
  by (auto simp: list_all_iff list_ex_iff)

lemma ancestor_within_walk:
  "ancestor_within ts me a fuel \<Longrightarrow> parent_walk ts me a = Some (Inr True)"
proof (induction fuel arbitrary: a)
  case 0
  then show ?case by simp
next
  case (Suc fuel)
  from Suc.prems obtain th par where th: "ts a = Some th"
    and par: "ts (parent_thread th) = Some par"
    by (auto split: option.splits)
  show ?case
  proof (cases "tid par = me")
    case True
    then show ?thesis using th par by (subst parent_walk.simps) simp
  next
    case False
    then have "tid par \<noteq> 1" and "ancestor_within ts me (parent_thread th) fuel"
      using Suc.prems th par by (auto split: if_splits)
    then show ?thesis
      using th par False Suc.IH [of "parent_thread th"]
      by (subst parent_walk.simps) simp
  qed
qed

lemma kill_reaches_post_signal:
  assumes v: "validated_tid k n = Some ta" and u: "tcb k ta = Some u"
    and me: "tcb k (cur k) = Some me"
    and ok: "sn = SIG_USR \<and> sigmask u AND 8 = 0 \<or>
             sn = SIG_KILL \<and> ancestor_within (tcb k) (tid me) ta fuel"
  shows "kill k mem_ok n sn = Some (post_signal k mem_ok ta u sn)"
  using ok
proof
  assume "sn = SIG_USR \<and> sigmask u AND 8 = 0"
  then show ?thesis using v u sig_distinct by (simp add: kill_def)
next
  assume a: "sn = SIG_KILL \<and> ancestor_within (tcb k) (tid me) ta fuel"
  then have "parent_walk (tcb k) (tid me) ta = Some (Inr True)"
    using ancestor_within_walk by blast
  then show ?thesis using a v u me sig_distinct by (simp add: kill_def thread_current_def)
qed

text \<open>
  C6.  Start from any kernel state in which the thread at address \<open>a\<close> has no pending
  signal and run any sequence of \<^verbatim>\<open>kill\<close> calls, by any callers, to any targets, with any
  signal numbers: in the state reached the thread's pending list holds at most one
  \<^verbatim>\<open>SIG_USR\<close> record and at most one \<^verbatim>\<open>SIG_KILL\<close> record.  And let a \<^verbatim>\<open>kill\<close> with
  \<^verbatim>\<open>SIG_USR\<close> go to a target that does not mask it, or a \<^verbatim>\<open>kill\<close> with \<^verbatim>\<open>SIG_KILL\<close> come from
  a caller whose TID is met on the target's parent chain.  If the target's pending list
  holds a record \<open>x\<close> of that number, with none of that number before it, the call returns
  0 and the list is the same list with the sender of \<open>x\<close> replaced by the caller's TID:
  every other record is as it was, nothing is enqueued, and the allocator is not asked.
  If the list holds no record of that number and the allocation succeeds, the call returns
  0 and one record with the caller's TID is appended.
\<close>

theorem pending_at_most_one:
  "(tcb k a = Some t \<and> pending_signals t = [] \<and> run_kills k cs = Some (Inr k') \<longrightarrow>
      (\<exists>t'. tcb k' a = Some t' \<and> count_sig SIG_USR (pending_signals t') \<le> 1 \<and>
            count_sig SIG_KILL (pending_signals t') \<le> 1)) \<and>
   (validated_tid k n = Some ta \<and> tcb k ta = Some u \<and> tcb k (cur k) = Some me \<and>
    pending_signals u = pre @ x # post \<and> signum x = sn \<and>
    list_all (\<lambda>s. signum s \<noteq> sn) pre \<and>
    (sn = SIG_USR \<and> sigmask u AND 8 = 0 \<or>
     sn = SIG_KILL \<and> ancestor_within (tcb k) (tid me) ta fuel) \<longrightarrow>
      kill k mem_ok n sn =
        Some (Inr (with_pending k ta u (pre @ x\<lparr>sender := tid me\<rparr> # post), 0))) \<and>
   (validated_tid k n = Some ta \<and> tcb k ta = Some u \<and> tcb k (cur k) = Some me \<and>
    list_all (\<lambda>s. signum s \<noteq> sn) (pending_signals u) \<and>
    (sn = SIG_USR \<and> sigmask u AND 8 = 0 \<or>
     sn = SIG_KILL \<and> ancestor_within (tcb k) (tid me) ta fuel) \<longrightarrow>
      kill k True n sn =
        Some (Inr (with_pending k ta u
                     (pending_signals u @ [\<lparr>signum = sn, sender = tid me\<rparr>]), 0)))"
proof (intro conjI impI)
  assume a: "tcb k a = Some t \<and> pending_signals t = [] \<and> run_kills k cs = Some (Inr k')"
  then have "at_most_one k a" by (simp add: at_most_one_def count_sig_def)
  then have "at_most_one k' a" using a run_kills_at_most_one by blast
  then show "\<exists>t'. tcb k' a = Some t' \<and> count_sig SIG_USR (pending_signals t') \<le> 1 \<and>
            count_sig SIG_KILL (pending_signals t') \<le> 1"
    by (auto simp: at_most_one_def split: option.splits)
next
  assume b: "validated_tid k n = Some ta \<and> tcb k ta = Some u \<and> tcb k (cur k) = Some me \<and>
    pending_signals u = pre @ x # post \<and> signum x = sn \<and>
    list_all (\<lambda>s. signum s \<noteq> sn) pre \<and>
    (sn = SIG_USR \<and> sigmask u AND 8 = 0 \<or>
     sn = SIG_KILL \<and> ancestor_within (tcb k) (tid me) ta fuel)"
  then have kl: "kill k mem_ok n sn = Some (post_signal k mem_ok ta u sn)"
    by (intro kill_reaches_post_signal [where me = me and fuel = fuel]) simp_all
  have ex: "list_ex (\<lambda>s. signum s = sn) (pending_signals u)"
    using b by (simp add: list_ex_iff)
  have ow: "overwrite_sender sn (tid me) (pending_signals u)
      = pre @ x\<lparr>sender := tid me\<rparr> # post"
    using b by (simp add: overwrite_sender_split)
  show "kill k mem_ok n sn =
        Some (Inr (with_pending k ta u (pre @ x\<lparr>sender := tid me\<rparr> # post), 0))"
    using b ex ow
    by (simp add: kl post_signal_def thread_current_def with_pending_def)
next
  assume c: "validated_tid k n = Some ta \<and> tcb k ta = Some u \<and> tcb k (cur k) = Some me \<and>
    list_all (\<lambda>s. signum s \<noteq> sn) (pending_signals u) \<and>
    (sn = SIG_USR \<and> sigmask u AND 8 = 0 \<or>
     sn = SIG_KILL \<and> ancestor_within (tcb k) (tid me) ta fuel)"
  then have kl: "kill k True n sn = Some (post_signal k True ta u sn)"
    by (intro kill_reaches_post_signal [where me = me and fuel = fuel]) simp_all
  have nex: "\<not> list_ex (\<lambda>s. signum s = sn) (pending_signals u)"
    using c by (simp add: list_all_not_ex)
  show "kill k True n sn =
        Some (Inr (with_pending k ta u
                     (pending_signals u @ [\<lparr>signum = sn, sender = tid me\<rparr>]), 0))"
    using c nex
    by (simp add: kl post_signal_def thread_current_def with_pending_def)
qed

lemma kill_usr_child:
  "kill (with_pending (demo_kernel c) 200 child_thread ps) True 2 SIG_USR =
     Some (post_signal (with_pending (demo_kernel c) 200 child_thread ps) True 200
             (child_thread\<lparr>pending_signals := ps\<rparr>) SIG_USR)"
proof -
  have v: "validated_tid (with_pending (demo_kernel c) 200 child_thread ps) 2 = Some 200"
    unfolding with_pending_def
    using validated_tid_upd [of "demo_kernel c" 200 child_thread
        "child_thread\<lparr>pending_signals := ps\<rparr>" 2]
    by (simp add: demo_simps demo_tids)
  show ?thesis
    by (simp add: kill_def v sig_distinct)
      (simp add: with_pending_def child_thread_def sig_distinct)
qed

lemma demo_fields:
  "tid child_thread = 2" "sigmask child_thread = 1" "parent_thread child_thread = 100"
  "tid root_thread = 1"
  by (simp_all add: child_thread_def root_thread_def)

lemma with_pending_demo:
  "validated_tid (with_pending (demo_kernel c) 200 child_thread ps) 2 = Some 200"
  "tcb (with_pending (demo_kernel c) 200 child_thread ps) 200
     = Some (child_thread\<lparr>pending_signals := ps\<rparr>)"
  "tcb (with_pending (demo_kernel c) 200 child_thread ps) 100 = Some root_thread"
  "cur (with_pending (demo_kernel c) 200 child_thread ps) = c"
  "with_pending (with_pending (demo_kernel c) 200 child_thread ps) 200
     (child_thread\<lparr>pending_signals := ps\<rparr>) qs
     = with_pending (demo_kernel c) 200 child_thread qs"
proof -
  show "validated_tid (with_pending (demo_kernel c) 200 child_thread ps) 2 = Some 200"
    unfolding with_pending_def
    using validated_tid_upd [of "demo_kernel c" 200 child_thread
        "child_thread\<lparr>pending_signals := ps\<rparr>" 2]
    by (simp add: demo_simps demo_tids)
qed (simp_all add: with_pending_def demo_kernel_def)

theorem pending_at_most_one_witness:
  "tcb (demo_kernel 100) 200 = Some child_thread \<and> pending_signals child_thread = [] \<and>
   run_kills (demo_kernel 100)
     [\<lparr>caller = 100, target = 2, sig_no = SIG_USR, alloc_ok = True\<rparr>,
      \<lparr>caller = 200, target = 2, sig_no = SIG_USR, alloc_ok = True\<rparr>]
     = Some (Inr (with_pending (demo_kernel 200) 200 child_thread
                    [\<lparr>signum = SIG_USR, sender = 2\<rparr>])) \<and>
   (\<exists>t'. tcb (with_pending (demo_kernel 200) 200 child_thread
                [\<lparr>signum = SIG_USR, sender = 2\<rparr>]) 200 = Some t' \<and>
      count_sig SIG_USR (pending_signals t') \<le> 1 \<and>
      count_sig SIG_KILL (pending_signals t') \<le> 1) \<and>
   kill (with_pending (demo_kernel 200) 200 child_thread
           [\<lparr>signum = SIG_KILL, sender = 1\<rparr>, \<lparr>signum = SIG_USR, sender = 1\<rparr>])
       False 2 SIG_USR
     = Some (Inr (with_pending (demo_kernel 200) 200 child_thread
                    [\<lparr>signum = SIG_KILL, sender = 1\<rparr>, \<lparr>signum = SIG_USR, sender = 2\<rparr>],
                  0)) \<and>
   kill (with_pending (demo_kernel 100) 200 child_thread
           [\<lparr>signum = SIG_USR, sender = 2\<rparr>, \<lparr>signum = SIG_KILL, sender = 7\<rparr>])
       False 2 SIG_KILL
     = Some (Inr (with_pending (demo_kernel 100) 200 child_thread
                    [\<lparr>signum = SIG_USR, sender = 2\<rparr>, \<lparr>signum = SIG_KILL, sender = 1\<rparr>],
                  0)) \<and>
   kill (with_pending (demo_kernel 100) 200 child_thread [\<lparr>signum = SIG_USR, sender = 2\<rparr>])
       True 2 SIG_KILL
     = Some (Inr (with_pending (demo_kernel 100) 200 child_thread
                    [\<lparr>signum = SIG_USR, sender = 2\<rparr>, \<lparr>signum = SIG_KILL, sender = 1\<rparr>],
                  0))"
proof -
  define k1 where
    "k1 = with_pending (demo_kernel 200) 200 child_thread [\<lparr>signum = SIG_USR, sender = 1\<rparr>]"
  define k2 where
    "k2 = with_pending (demo_kernel 200) 200 child_thread [\<lparr>signum = SIG_USR, sender = 2\<rparr>]"
  define cs where
    "cs = [\<lparr>caller = 100, target = 2, sig_no = SIG_USR, alloc_ok = True\<rparr>,
           \<lparr>caller = 200, target = 2, sig_no = SIG_USR, alloc_ok = True\<rparr>]"
  have a: "tcb (demo_kernel 100) 200 = Some child_thread" by (simp add: demo_simps)
  have b: "pending_signals child_thread = []" by (simp add: child_thread_def)
  have d0: "demo_kernel 100\<lparr>cur := 100\<rparr> = with_pending (demo_kernel 100) 200 child_thread []"
    by (simp add: with_pending_def demo_kernel_def child_thread_def fun_eq_iff)
  have s1: "kill (demo_kernel 100\<lparr>cur := 100\<rparr>) True 2 SIG_USR
      = Some (Inr (with_pending (demo_kernel 100) 200 child_thread
                     [\<lparr>signum = SIG_USR, sender = 1\<rparr>], 0))"
    unfolding d0 kill_usr_child
    by (simp add: post_signal_def thread_current_def with_pending_def demo_kernel_def
        child_thread_def root_thread_def)
  have d1: "(with_pending (demo_kernel 100) 200 child_thread
                     [\<lparr>signum = SIG_USR, sender = 1\<rparr>])\<lparr>cur := 200\<rparr> = k1"
    by (simp add: k1_def with_pending_def demo_kernel_def)
  have s2: "kill k1 True 2 SIG_USR = Some (Inr (k2, 0))"
    unfolding k1_def k2_def kill_usr_child
    by (simp add: post_signal_def thread_current_def with_pending_def demo_kernel_def
        child_thread_def root_thread_def)
  have c: "run_kills (demo_kernel 100) cs = Some (Inr k2)"
    by (simp add: cs_def s1 d1 s2)
  have p1: "\<exists>t'. tcb k2 200 = Some t' \<and> count_sig SIG_USR (pending_signals t') \<le> 1 \<and>
      count_sig SIG_KILL (pending_signals t') \<le> 1"
    using pending_at_most_one [where k = "demo_kernel 100" and a = 200 and t = child_thread
        and cs = cs and k' = k2, THEN conjunct1] a b c by blast
  let ?ku = "with_pending (demo_kernel 200) 200 child_thread
           [\<lparr>signum = SIG_KILL, sender = 1\<rparr>, \<lparr>signum = SIG_USR, sender = 1\<rparr>]"
  let ?uu = "child_thread\<lparr>pending_signals :=
           [\<lparr>signum = SIG_KILL, sender = 1\<rparr>, \<lparr>signum = SIG_USR, sender = 1\<rparr>]\<rparr>"
  have p2: "kill ?ku False 2 SIG_USR
      = Some (Inr (with_pending ?ku 200 ?uu
           ([\<lparr>signum = SIG_KILL, sender = 1\<rparr>]
              @ \<lparr>signum = SIG_USR, sender = 1\<rparr>\<lparr>sender := tid ?uu\<rparr> # []), 0))"
    using pending_at_most_one [where k = ?ku and n = 2 and ta = 200 and u = ?uu and me = ?uu
        and pre = "[\<lparr>signum = SIG_KILL, sender = 1\<rparr>]" and x = "\<lparr>signum = SIG_USR, sender = 1\<rparr>"
        and post = "[]" and sn = SIG_USR and mem_ok = False and fuel = 0,
        THEN conjunct2, THEN conjunct1]
    by (simp add: with_pending_demo sig_distinct demo_fields)
  let ?kk = "with_pending (demo_kernel 100) 200 child_thread
           [\<lparr>signum = SIG_USR, sender = 2\<rparr>, \<lparr>signum = SIG_KILL, sender = 7\<rparr>]"
  let ?uk = "child_thread\<lparr>pending_signals :=
           [\<lparr>signum = SIG_USR, sender = 2\<rparr>, \<lparr>signum = SIG_KILL, sender = 7\<rparr>]\<rparr>"
  have anc: "ancestor_within (tcb (with_pending (demo_kernel 100) 200 child_thread ps))
      (tid root_thread) 200 (Suc 0)" for ps
    by (simp add: with_pending_demo demo_fields)
  have p3: "kill ?kk False 2 SIG_KILL
      = Some (Inr (with_pending ?kk 200 ?uk
           ([\<lparr>signum = SIG_USR, sender = 2\<rparr>]
              @ \<lparr>signum = SIG_KILL, sender = 7\<rparr>\<lparr>sender := tid root_thread\<rparr> # []), 0))"
    using pending_at_most_one [where k = ?kk and n = 2 and ta = 200 and u = ?uk
        and me = root_thread
        and pre = "[\<lparr>signum = SIG_USR, sender = 2\<rparr>]" and x = "\<lparr>signum = SIG_KILL, sender = 7\<rparr>"
        and post = "[]" and sn = SIG_KILL and mem_ok = False and fuel = "Suc 0",
        THEN conjunct2, THEN conjunct1] anc
    by (simp add: with_pending_demo sig_distinct demo_fields)
  let ?ke = "with_pending (demo_kernel 100) 200 child_thread [\<lparr>signum = SIG_USR, sender = 2\<rparr>]"
  let ?ue = "child_thread\<lparr>pending_signals := [\<lparr>signum = SIG_USR, sender = 2\<rparr>]\<rparr>"
  have p4: "kill ?ke True 2 SIG_KILL
      = Some (Inr (with_pending ?ke 200 ?ue
           (pending_signals ?ue @ [\<lparr>signum = SIG_KILL, sender = tid root_thread\<rparr>]), 0))"
    using pending_at_most_one [where k = ?ke and n = 2 and ta = 200 and u = ?ue
        and me = root_thread and sn = SIG_KILL and fuel = "Suc 0",
        THEN conjunct2, THEN conjunct2] anc
    by (simp add: with_pending_demo sig_distinct demo_fields)
  show ?thesis
    using a b c p1 p2 p3 p4
    by (simp add: cs_def k2_def [symmetric] with_pending_demo demo_fields)
qed

section \<open>kill with SIG\_UBLOCK\<close>

text \<open>
  C10.  For every state, target TID and outcome of the allocator, \<^verbatim>\<open>kill (tid, SIG_UBLOCK)\<close>
  returns and leaves every thread control block as it was, so the target's pending list
  and mask are unchanged.  An unknown TID and a target masking \<^verbatim>\<open>SIG_UBLOCK\<close> give -1 in
  the unchanged state, a target that is not blocked gives 0 in the unchanged state, and a
  blocked target gives 0 with the target appended to \<^verbatim>\<open>unblock_list\<close> and nothing else
  changed.
\<close>

theorem kill_ublock_frame:
  "\<exists>k' r. kill k mem_ok n SIG_UBLOCK = Some (Inr (k', r)) \<and> tcb k' = tcb k \<and>
     (case validated_tid k n of
        None \<Rightarrow> r = - 1 \<and> k' = k
      | Some ta \<Rightarrow>
          (if (\<exists>t. tcb k ta = Some t \<and> sigmask t AND 4 \<noteq> 0) then r = - 1 \<and> k' = k
           else if (\<exists>t. tcb k ta = Some t \<and> status t \<noteq> THREAD_BLOCKED) then r = 0 \<and> k' = k
           else r = 0 \<and> k' = k\<lparr>unblock_list := unblock_list k @ [ta]\<rparr>))"
proof (cases "validated_tid k n")
  case None
  then show ?thesis by (simp add: kill_def)
next
  case (Some ta)
  then obtain t where t: "tcb k ta = Some t" using validated_tid_Some by blast
  show ?thesis using Some t by (simp add: kill_def)
qed

end
